theory Spec2Isabelle
  imports Complex_Main "HOL-Library.Sublist"
begin

section \<open>TTL cache of the data provider service\<close>

text \<open>
  \<^verbatim>\<open>private cache: Map<string, { data: any; expires: number }>\<close> with
  \<^verbatim>\<open>CACHE_TTL = 60000\<close>. \<^verbatim>\<open>Date.now()\<close> is the explicit argument \<open>now\<close>
  (integer milliseconds). The mutated map is returned next to the result; \<open>None\<close> is
  the \<^verbatim>\<open>null\<close> that \<^verbatim>\<open>getFromCache\<close> returns on a miss.
\<close>

record 'v cache_entry =
  data :: 'v
  expires :: int

type_synonym 'v cache = "string \<rightharpoonup> 'v cache_entry"

definition CACHE_TTL :: int where
  "CACHE_TTL = 60000"

definition getFromCache :: "int \<Rightarrow> string \<Rightarrow> 'v cache \<Rightarrow> 'v option \<times> 'v cache" where
  "getFromCache now key c =
     (case c key of
        Some cached \<Rightarrow>
          if expires cached > now then (Some (data cached), c)
          else (None, c(key := None))
      | None \<Rightarrow> (None, c))"

definition setCache :: "int \<Rightarrow> string \<Rightarrow> 'v \<Rightarrow> 'v cache \<Rightarrow> 'v cache" where
  "setCache now key d c = c(key \<mapsto> \<lparr>data = d, expires = now + CACHE_TTL\<rparr>)"

section \<open>Circuit breaker\<close>

text \<open>
  The class fields are a record, the configuration another. \<^verbatim>\<open>execute\<close> reads the
  clock on entry (\<open>now\<close>) and again in \<^verbatim>\<open>onFailure\<close> once the awaited operation has
  settled (\<open>fin\<close>). The wrapped operation is a transformer of an outside world \<open>'w\<close>, so
  that a call which is not made leaves the world untouched. Errors are values:
  \<open>CircuitOpenError\<close> is the \<^verbatim>\<open>Error("Circuit breaker is OPEN - service unavailable")\<close>
  thrown by the breaker, \<open>OperationError e\<close> the operation's own error rethrown.
\<close>

datatype CircuitState = CLOSED | OPEN | HALF_OPEN

record CircuitBreakerConfig =
  failureThreshold :: int
  successThreshold :: int
  timeout :: int
  resetTimeout :: int

record CircuitBreaker =
  state :: CircuitState
  failureCount :: int
  successCount :: int
  lastFailureTime :: int
  lastResetTime :: int

datatype 'e breaker_error = CircuitOpenError | OperationError 'e

definition defaultConfig :: CircuitBreakerConfig where
  "defaultConfig =
     \<lparr>failureThreshold = 5, successThreshold = 2, timeout = 60000, resetTimeout = 300000\<rparr>"

definition newCircuitBreaker :: "int \<Rightarrow> CircuitBreaker" where
  "newCircuitBreaker now =
     \<lparr>state = CLOSED, failureCount = 0, successCount = 0, lastFailureTime = 0,
      lastResetTime = now\<rparr>"

definition onSuccess :: "CircuitBreakerConfig \<Rightarrow> CircuitBreaker \<Rightarrow> CircuitBreaker" where
  "onSuccess cfg cb =
     (let cb1 = cb\<lparr>failureCount := 0\<rparr> in
      if state cb1 = HALF_OPEN then
        (let cb2 = cb1\<lparr>successCount := successCount cb1 + 1\<rparr> in
         if successCount cb2 \<ge> successThreshold cfg
         then cb2\<lparr>state := CLOSED, successCount := 0\<rparr>
         else cb2)
      else cb1)"

definition onFailure :: "CircuitBreakerConfig \<Rightarrow> int \<Rightarrow> CircuitBreaker \<Rightarrow> CircuitBreaker" where
  "onFailure cfg now cb =
     (let cb1 = cb\<lparr>failureCount := failureCount cb + 1, lastFailureTime := now\<rparr> in
      if failureCount cb1 \<ge> failureThreshold cfg then cb1\<lparr>state := OPEN\<rparr> else cb1)"

definition periodicReset :: "CircuitBreakerConfig \<Rightarrow> int \<Rightarrow> CircuitBreaker \<Rightarrow> CircuitBreaker" where
  "periodicReset cfg now cb =
     (if now - lastResetTime cb > resetTimeout cfg
      then cb\<lparr>failureCount := 0, lastResetTime := now\<rparr>
      else cb)"

definition checkState ::
  "CircuitBreakerConfig \<Rightarrow> int \<Rightarrow> CircuitBreaker \<Rightarrow> 'e breaker_error + CircuitBreaker" where
  "checkState cfg now cb =
     (if state cb = OPEN then
        (if now - lastFailureTime cb > timeout cfg
         then Inr (cb\<lparr>state := HALF_OPEN, successCount := 0\<rparr>)
         else Inl CircuitOpenError)
      else Inr cb)"

definition execute ::
  "CircuitBreakerConfig \<Rightarrow> ('w \<Rightarrow> ('e + 'a) \<times> 'w) \<Rightarrow> int \<Rightarrow> int \<Rightarrow> CircuitBreaker \<Rightarrow> 'w
     \<Rightarrow> ('e breaker_error + 'a) \<times> CircuitBreaker \<times> 'w" where
  "execute cfg fn now fin cb w =
     (let cb1 = periodicReset cfg now cb in
      case checkState cfg now cb1 of
        Inl err \<Rightarrow> (Inl err, cb1, w)
      | Inr cb2 \<Rightarrow>
          (case fn w of
             (Inr result, w') \<Rightarrow> (Inr result, onSuccess cfg cb2, w')
           | (Inl error, w') \<Rightarrow> (Inl (OperationError error), onFailure cfg fin cb2, w')))"

text \<open>
  A run of several \<^verbatim>\<open>execute\<close> calls on one breaker, each with its operation and
  its two clock readings; the results of the calls are dropped, the breaker and the
  world are threaded through.
\<close>

fun executeSeq ::
  "CircuitBreakerConfig \<Rightarrow> (('w \<Rightarrow> ('e + 'a) \<times> 'w) \<times> int \<times> int) list
     \<Rightarrow> CircuitBreaker \<times> 'w \<Rightarrow> CircuitBreaker \<times> 'w" where
  "executeSeq cfg [] s = s"
| "executeSeq cfg ((fn, now, fin) # calls) (cb, w) =
     executeSeq cfg calls (snd (execute cfg fn now fin cb w))"

text \<open>Two operations on a world that counts the calls made: one rejects, one resolves.\<close>

definition failingOp :: "nat \<Rightarrow> (string + unit) \<times> nat" where
  "failingOp w = (Inl ''503'', Suc w)"

definition succeedingOp :: "nat \<Rightarrow> (string + unit) \<times> nat" where
  "succeedingOp w = (Inr (), Suc w)"

text \<open>
  The default breaker created at time 0 after five failed calls at time 0 (it has
  tripped), and the same breaker after one more call at 60001 ms that succeeded.
\<close>

definition trippedBreaker :: "CircuitBreaker \<times> nat" where
  "trippedBreaker =
     executeSeq defaultConfig
       [(failingOp, 0, 0), (failingOp, 0, 0), (failingOp, 0, 0), (failingOp, 0, 0),
        (failingOp, 0, 0)]
       (newCircuitBreaker 0, 0)"

definition probedBreaker :: "CircuitBreaker \<times> nat" where
  "probedBreaker = executeSeq defaultConfig [(succeedingOp, 60001, 60001)] trippedBreaker"

section \<open>Rate limiter\<close>

text \<open>
  \<^verbatim>\<open>class RateLimiter\<close> of \<^verbatim>\<open>utils/http.ts\<close>. The two constructor arguments are the
  configuration; \<^verbatim>\<open>maxRequests\<close> and \<^verbatim>\<open>requestCount\<close> are counts. The queue holds the
  \<^verbatim>\<open>resolve\<close> callbacks of the pending \<^verbatim>\<open>acquire()\<close> promises, each named by a value
  of \<open>'c\<close>. Calling a callback is the admission: it is recorded, with the time of the
  call, at the end of \<open>resolved\<close>. \<^verbatim>\<open>setTimeout(() => this.process(), delay)\<close> adds a
  pending callback; when it runs is an event of the run, not computed from \<open>delay\<close>
  (a timer may fire late, so every later time is possible). \<^verbatim>\<open>updateRateLimitInfo\<close>,
  which only \<^verbatim>\<open>fetchWithRetry\<close> calls and only when it is given the limiter, is not an
  event of these runs.
\<close>

record RateLimiterConfig =
  maxRequests :: nat
  windowMs :: int

record 'c RateLimiter =
  queue :: "'c list"
  processing :: bool
  requestCount :: nat
  windowStart :: int
  pendingTimers :: nat
  resolved :: "('c \<times> int) list"

definition newRateLimiter :: "int \<Rightarrow> 'c RateLimiter" where
  "newRateLimiter now =
     \<lparr>queue = [], processing = False, requestCount = 0, windowStart = now,
      pendingTimers = 0, resolved = []\<rparr>"

definition process :: "RateLimiterConfig \<Rightarrow> int \<Rightarrow> 'c RateLimiter \<Rightarrow> 'c RateLimiter" where
  "process cfg now s =
     (if processing s \<and> queue s = [] then s
      else
        (let s1 = (if now - windowStart s \<ge> windowMs cfg
                   then s\<lparr>requestCount := 0, windowStart := now\<rparr>
                   else s);
             s2 = (if requestCount s1 < maxRequests cfg \<and> queue s1 \<noteq> []
                   then s1\<lparr>queue := tl (queue s1),
                           requestCount := requestCount s1 + 1,
                           resolved := resolved s1 @ [(hd (queue s1), now)]\<rparr>
                   else s1)
         in if queue s2 \<noteq> []
            then s2\<lparr>processing := True, pendingTimers := Suc (pendingTimers s2)\<rparr>
            else s2\<lparr>processing := False\<rparr>))"

definition acquire :: "RateLimiterConfig \<Rightarrow> 'c \<Rightarrow> int \<Rightarrow> 'c RateLimiter \<Rightarrow> 'c RateLimiter" where
  "acquire cfg c now s = process cfg now (s\<lparr>queue := queue s @ [c]\<rparr>)"

definition timerFires :: "RateLimiterConfig \<Rightarrow> int \<Rightarrow> 'c RateLimiter \<Rightarrow> 'c RateLimiter" where
  "timerFires cfg now s =
     (if pendingTimers s = 0 then s
      else process cfg now (s\<lparr>pendingTimers := pendingTimers s - 1\<rparr>))"

text \<open>
  A run of the limiter: calls of \<^verbatim>\<open>acquire()\<close> and scheduled callbacks running, each
  at the time \<^verbatim>\<open>Date.now()\<close> shows when it happens.
\<close>

datatype 'c event = Acquire 'c int | TimerFires int

fun eventTime :: "'c event \<Rightarrow> int" where
  "eventTime (Acquire c t) = t"
| "eventTime (TimerFires t) = t"

fun step :: "RateLimiterConfig \<Rightarrow> 'c event \<Rightarrow> 'c RateLimiter \<Rightarrow> 'c RateLimiter" where
  "step cfg (Acquire c t) s = acquire cfg c t s"
| "step cfg (TimerFires t) s = timerFires cfg t s"

fun run :: "RateLimiterConfig \<Rightarrow> 'c event list \<Rightarrow> 'c RateLimiter \<Rightarrow> 'c RateLimiter" where
  "run cfg [] s = s"
| "run cfg (e # es) s = run cfg es (step cfg e s)"

text \<open>The admissions of a log that fall into the interval from \<open>a\<close> of length \<open>len\<close>.\<close>

definition admissionsIn :: "int \<Rightarrow> int \<Rightarrow> ('c \<times> int) list \<Rightarrow> nat" where
  "admissionsIn a len lg = length (filter (\<lambda>e. a \<le> snd e \<and> snd e < a + len) lg)"

text \<open>
  What the proofs keep about the window at a time \<open>T\<close> that no admission is later than:
  the start \<open>W\<close>, the counter \<open>n\<close> and the log of admissions.
\<close>

definition windowInv :: "RateLimiterConfig \<Rightarrow> int \<Rightarrow> int \<Rightarrow> nat \<Rightarrow> ('c \<times> int) list \<Rightarrow> bool" where
  "windowInv cfg T W n lg =
     (W \<le> T
      \<and> (\<forall>e \<in> set lg. snd e \<le> T \<and> snd e < W + windowMs cfg)
      \<and> length (filter (\<lambda>e. W \<le> snd e) lg) = n
      \<and> n \<le> maxRequests cfg
      \<and> length (filter (\<lambda>e. W - windowMs cfg < snd e \<and> snd e < W) lg) \<le> maxRequests cfg
      \<and> (\<forall>a. admissionsIn a (windowMs cfg) lg \<le> 2 * maxRequests cfg))"

text \<open>A limiter of two requests per second, created at time 0, and four calls around
  the end of its first window.\<close>

definition twoPerSecond :: RateLimiterConfig where
  "twoPerSecond = \<lparr>maxRequests = 2, windowMs = 1000\<rparr>"

definition burst :: "nat event list" where
  "burst = [Acquire 1 999, Acquire 2 999, Acquire 3 1000, Acquire 4 1000]"

section \<open>Retrying HTTP requester\<close>

text \<open>
  \<^verbatim>\<open>fetchWithRetry(url, options, retryConfig, rateLimiter?)\<close> of \<^verbatim>\<open>utils/http.ts\<close>.
  One call of \<^verbatim>\<open>fetch\<close> is a transformer of an outside world \<open>'w\<close> that either
  rejects (\<open>Threw message\<close>: a transport failure or the 30 s abort) or resolves with a
  response. An \<^verbatim>\<open>Error\<close> is its message. Of a response the model keeps the status,
  the \<^verbatim>\<open>Retry-After\<close> header and the body; the header is kept by the text that the
  template literal of the error message prints for \<^verbatim>\<open>parseInt\<close> of it. The status is
  an unsigned short of the Fetch API, printed in decimal. The optional \<^verbatim>\<open>rateLimiter\<close>
  argument, which the service never passes, only has its \<^verbatim>\<open>updateRateLimitInfo\<close> called
  and is left out.
\<close>

record RetryConfig =
  maxRetries :: nat
  baseDelayMs :: int
  maxDelayMs :: int

text \<open>
  A header that is present is kept as the text \<^verbatim>\<open>${parseInt(header)}\<close>: the decimal
  digits of the number, after a minus sign when it is negative, for an integer that is
  a safe integer (\<^verbatim>\<open>120\<close>, \<^verbatim>\<open>-5\<close>); a rounded or exponent form beyond (\<^verbatim>\<open>1e+24\<close>
  from \<open>10^21\<close> on); \<^verbatim>\<open>NaN\<close> when the header does not start with a number.
\<close>

datatype header_value =
    Absent          \<comment> \<open>\<^verbatim>\<open>headers.get\<close> gives \<^verbatim>\<open>null\<close> or the empty string\<close>
  | Printed string  \<comment> \<open>a non-empty text; \<^verbatim>\<open>parseInt\<close> of it prints as this text\<close>

record 'b Response =
  status :: nat
  retryAfterHeader :: header_value
  body :: 'b

datatype 'b outcome = Threw string | Responded "'b Response"

definition defaultRetryConfig :: RetryConfig where
  "defaultRetryConfig = \<lparr>maxRetries = 3, baseDelayMs = 1000, maxDelayMs = 10000\<rparr>"

definition ok :: "'b Response \<Rightarrow> bool" where
  "ok r = (200 \<le> status r \<and> status r \<le> 299)"

text \<open>The decimal digits of a natural number.\<close>

fun showNat :: "nat \<Rightarrow> string" where
  "showNat n = (if n < 10 then [''0123456789'' ! n]
                else showNat (n div 10) @ [''0123456789'' ! (n mod 10)])"

text \<open>
  What the template literal prints for
  \<^verbatim>\<open>parseInt(response.headers.get("Retry-After") || "60")\<close>.
\<close>

definition retryAfterText :: "header_value \<Rightarrow> string" where
  "retryAfterText h = (case h of Absent \<Rightarrow> ''60'' | Printed t \<Rightarrow> t)"

text \<open>
  \<^verbatim>\<open>message.includes(pat)\<close>, and the seconds that
  \<^verbatim>\<open>parseInt(message.match(/\d+/)?.[0] || "60")\<close> reads from a message: its first run
  of decimal digits, or 60 when it has none.
\<close>

fun includes_str :: "string \<Rightarrow> string \<Rightarrow> bool" where
  "includes_str [] pat = (pat = [])"
| "includes_str (c # cs) pat = (prefix pat (c # cs) \<or> includes_str cs pat)"

definition isDigit :: "char \<Rightarrow> bool" where
  "isDigit c = (c \<in> set ''0123456789'')"

definition digitValue :: "char \<Rightarrow> nat" where
  "digitValue c = length (takeWhile (\<lambda>d. d \<noteq> c) ''0123456789'')"

definition firstDigits :: "string \<Rightarrow> string" where
  "firstDigits msg = takeWhile isDigit (dropWhile (\<lambda>c. \<not> isDigit c) msg)"

definition parseDigits :: "string \<Rightarrow> nat" where
  "parseDigits ds = foldl (\<lambda>acc c. 10 * acc + digitValue c) 0 ds"

definition retryAfterSeconds :: "string \<Rightarrow> nat" where
  "retryAfterSeconds msg =
     (if firstDigits msg = [] then parseDigits ''60'' else parseDigits (firstDigits msg))"

text \<open>
  The body of the \<^verbatim>\<open>try\<close> block after \<^verbatim>\<open>fetch\<close> has settled: the response is
  returned, or an error is thrown (\<open>Inl\<close>) into the \<^verbatim>\<open>catch\<close> block.
\<close>

definition tryAttempt :: "'b outcome \<Rightarrow> string + 'b Response" where
  "tryAttempt oc =
     (case oc of
        Threw message \<Rightarrow> Inl message
      | Responded response \<Rightarrow>
          if status response = 429 then
            (let retryAfter = retryAfterText (retryAfterHeader response)
             in Inl (''Rate limited: retry after '' @ retryAfter @ ''s''))
          else if \<not> ok response \<and> status response \<ge> 500 then
            Inl (''Server error: '' @ showNat (status response))
          else Inr response)"

definition retryDelay :: "RetryConfig \<Rightarrow> nat \<Rightarrow> string \<Rightarrow> int" where
  "retryDelay cfg attempt message =
     (if includes_str message ''Rate limited''
      then int (retryAfterSeconds message) * 1000
      else min (baseDelayMs cfg * 2 ^ attempt) (maxDelayMs cfg))"

text \<open>
  The \<^verbatim>\<open>for\<close> loop, from the current \<open>attempt\<close> on. Besides the source's
  \<^verbatim>\<open>lastError\<close> the loop carries a log with one entry per call of \<^verbatim>\<open>fetch\<close>: what
  the call gave and the delay awaited after it, if any. The result is the returned
  response or the thrown error, the log and the world.
\<close>

type_synonym 'b attempt_log = "('b outcome \<times> int option) list"

function fetchLoop ::
  "RetryConfig \<Rightarrow> ('w \<Rightarrow> 'b outcome \<times> 'w) \<Rightarrow> nat \<Rightarrow> string option \<Rightarrow> 'b attempt_log \<Rightarrow> 'w
     \<Rightarrow> (string + 'b Response) \<times> 'b attempt_log \<times> 'w" where
  "fetchLoop cfg fetch attempt lastError lg w =
     (if attempt \<le> maxRetries cfg then
        (case fetch w of (oc, w') \<Rightarrow>
           (case tryAttempt oc of
              Inr response \<Rightarrow> (Inr response, lg @ [(oc, None)], w')
            | Inl error \<Rightarrow>
                fetchLoop cfg fetch (attempt + 1) (Some error)
                  (lg @ [(oc, if attempt < maxRetries cfg
                               then Some (retryDelay cfg attempt error) else None)])
                  w'))
      else
        (Inl (case lastError of Some error \<Rightarrow> error | None \<Rightarrow> ''Request failed''), lg, w))"
  by pat_completeness auto
termination
  by (relation "measure (\<lambda>(cfg, fetch, attempt, lastError, lg, w). Suc (maxRetries cfg) - attempt)")
    auto

definition fetchWithRetry ::
  "RetryConfig \<Rightarrow> ('w \<Rightarrow> 'b outcome \<times> 'w) \<Rightarrow> 'w
     \<Rightarrow> (string + 'b Response) \<times> 'b attempt_log \<times> 'w" where
  "fetchWithRetry cfg fetch w = fetchLoop cfg fetch 0 None [] w"

text \<open>
  Servers for the scenarios, on a world that counts the requests received: one that
  answers 500 twice and 200 from then on, one that always answers a given status.
\<close>

definition plainResponse :: "nat \<Rightarrow> unit Response" where
  "plainResponse st = \<lparr>status = st, retryAfterHeader = Absent, body = ()\<rparr>"

definition flakyServer :: "nat \<Rightarrow> unit outcome \<times> nat" where
  "flakyServer w = (Responded (plainResponse (if w < 2 then 500 else 200)), Suc w)"

definition constantServer :: "nat \<Rightarrow> nat \<Rightarrow> unit outcome \<times> nat" where
  "constantServer st w = (Responded (plainResponse st), Suc w)"

text \<open>A server that always answers 429 with a \<^verbatim>\<open>Retry-After\<close> header of a given print.\<close>

definition rateLimitingServer :: "string \<Rightarrow> nat \<Rightarrow> unit outcome \<times> nat" where
  "rateLimitingServer t w =
     (Responded \<lparr>status = 429, retryAfterHeader = Printed t, body = ()\<rparr>, Suc w)"

section \<open>Liquidity depth search and slippage\<close>

text \<open>
  Assets and routes of the service (\<^verbatim>\<open>AssetType\<close>, \<^verbatim>\<open>{ source, destination }\<close>).
  Amounts are \<^verbatim>\<open>BigInt\<close>s, modelled as \<open>int\<close>; \<^verbatim>\<open>BigInt\<close> division truncates towards
  zero (\<open>bigint_div\<close>; both divisions below have a non-zero divisor, so the
  \<^verbatim>\<open>RangeError\<close> of a division by zero cannot arise). \<^verbatim>\<open>BigInt(10 ** decimals)\<close> is the
  exact power, which is what the source computes for up to 22 decimals.
\<close>

record Asset =
  chainId :: string
  assetId :: string
  symbol :: string
  decimals :: nat

record Route =
  source :: Asset
  destination :: Asset

definition bigint_div :: "int \<Rightarrow> int \<Rightarrow> int" where
  "bigint_div a b = sgn a * sgn b * (\<bar>a\<bar> div \<bar>b\<bar>)"

text \<open>
  \<^verbatim>\<open>calculateSlippage(route, amountIn, quote)\<close> with the two amounts already converted
  by \<^verbatim>\<open>BigInt(...)\<close>. The result \<^verbatim>\<open>Math.abs(Number(...))\<close> is kept as the exact integer
  (the conversion to a double is exact below \<open>2^53\<close>).
\<close>

definition calculateSlippage :: "Route \<Rightarrow> int \<Rightarrow> int \<Rightarrow> int" where
  "calculateSlippage route amountIn amountOut =
     (let expectedOut =
        bigint_div (amountIn * 10 ^ decimals (destination route)) (10 ^ decimals (source route))
      in if expectedOut = 0 then 0
         else \<bar>bigint_div ((expectedOut - amountOut) * 10000) expectedOut\<bar>)"

text \<open>
  The \<^verbatim>\<open>for\<close> loop of \<^verbatim>\<open>findMaxAmountForSlippage\<close>, by the number of iterations left.
  The probe \<open>quote route mid\<close> stands for \<^verbatim>\<open>getQuoteForAmount\<close> followed by the
  \<^verbatim>\<open>BigInt(quote.amountOut)\<close> of \<^verbatim>\<open>calculateSlippage\<close>: \<open>None\<close> when either throws, which
  the \<^verbatim>\<open>catch\<close> block turns into \<^verbatim>\<open>high = mid\<close>.
\<close>

fun searchLoop :: "(Route \<Rightarrow> int \<Rightarrow> int option) \<Rightarrow> Route \<Rightarrow> int \<Rightarrow> nat \<Rightarrow> int \<Rightarrow> int \<Rightarrow> int" where
  "searchLoop quote route slippageBps 0 low high = low"
| "searchLoop quote route slippageBps (Suc n) low high =
     (let mid = bigint_div (low + high) 2 in
      if mid = low \<or> mid = high then low
      else
        (case quote route mid of
           Some amountOut \<Rightarrow>
             if calculateSlippage route mid amountOut \<le> slippageBps
             then searchLoop quote route slippageBps n mid high
             else searchLoop quote route slippageBps n low mid
         | None \<Rightarrow> searchLoop quote route slippageBps n low mid))"

definition UPPER_BOUND :: int where
  "UPPER_BOUND = 10000000000000000000"

definition findMaxAmountForSlippage :: "(Route \<Rightarrow> int \<Rightarrow> int option) \<Rightarrow> Route \<Rightarrow> int \<Rightarrow> int" where
  "findMaxAmountForSlippage quote route slippageBps =
     searchLoop quote route slippageBps 25 0 UPPER_BOUND"

text \<open>
  The quote with zero slippage everywhere: the decimal-adjusted 1:1 output that
  \<^verbatim>\<open>calculateSlippage\<close> expects.
\<close>

definition idealQuote :: "Route \<Rightarrow> int \<Rightarrow> int option" where
  "idealQuote route amountIn =
     Some (bigint_div (amountIn * 10 ^ decimals (destination route)) (10 ^ decimals (source route)))"

text \<open>
  A quote with price impact growing with the amount, whose probes fail above
  \<open>8 * 10^18\<close>: a pool on which the two budgets of the service give different depths.
\<close>

definition poolQuote :: "Route \<Rightarrow> int \<Rightarrow> int option" where
  "poolQuote route amount =
     (if amount > 8000000000000000000 then None
      else Some (amount - bigint_div (amount * amount) 1000000000000000000000))"

definition usdcEthereum :: Asset where
  "usdcEthereum =
     \<lparr>chainId = ''1'', assetId = ''0xa0b86991c6218b36c1d19d4a2e9eb0ce3606eb48'',
      symbol = ''USDC'', decimals = 6\<rparr>"

definition usdcPolygon :: Asset where
  "usdcPolygon =
     \<lparr>chainId = ''137'', assetId = ''0x2791bca1f2de4661ed88a30c99a7a9449aa84174'',
      symbol = ''USDC'', decimals = 6\<rparr>"

definition ethToPolygon :: Route where
  "ethToPolygon = \<lparr>source = usdcEthereum, destination = usdcPolygon\<rparr>"

section \<open>Rates with per-item fallback\<close>

text \<open>
  \<^verbatim>\<open>getRates\<close>, \<^verbatim>\<open>getSingleRate\<close>, \<^verbatim>\<open>calculateWormholeQuote\<close>, \<^verbatim>\<open>createFallbackRate\<close>,
  \<^verbatim>\<open>calculateFeeUsd\<close> and \<^verbatim>\<open>calculateEffectiveRate\<close> of the service.

  A notional is a string; the model keeps what \<^verbatim>\<open>BigInt(notional)\<close> does with it: it
  converts to an integer or throws. Every error thrown in this part of the service comes
  from a \<^verbatim>\<open>BigInt(...)\<close> conversion. A JavaScript \<^verbatim>\<open>number\<close> (the fee in USD, the
  effective rate) is idealised as a real number: the operations are exact here and
  rounded to doubles in the source. The optional rate limiter only delays and the
  \<^verbatim>\<open>quotedAt\<close> time stamp is left out.
\<close>

datatype notional =
    Amount int          \<comment> \<open>\<^verbatim>\<open>BigInt(notional)\<close> is this integer\<close>
  | Malformed string    \<comment> \<open>\<^verbatim>\<open>BigInt(notional)\<close> throws\<close>

datatype service_error = BigIntError

text \<open>
  A field of the parsed quote document, as the chain of \<^verbatim>\<open>||\<close> and \<^verbatim>\<open>BigInt(...)\<close>
  sees it, and the body of a quote response, as \<^verbatim>\<open>await response.json()\<close> sees it.
\<close>

datatype js_field =
    Falsy             \<comment> \<open>absent, \<^verbatim>\<open>null\<close>, \<^verbatim>\<open>0\<close>, the empty string\<close>
  | Integral int      \<comment> \<open>truthy, and \<^verbatim>\<open>BigInt\<close> converts it to this integer\<close>
  | OtherTruthy       \<comment> \<open>truthy, and \<^verbatim>\<open>BigInt\<close> throws on it\<close>

record quote_doc =
  doc_amountOut :: js_field
  doc_targetAmount :: js_field
  doc_estimatedAmount :: js_field
  doc_toAmount :: js_field
  doc_feeUsd :: "real option"
  doc_feeUSD :: "real option"

datatype quote_body =
    Unparsable        \<comment> \<open>\<^verbatim>\<open>response.json()\<close> rejects\<close>
  | FalsyJson         \<comment> \<open>the document is \<^verbatim>\<open>null\<close>, \<^verbatim>\<open>false\<close>, \<^verbatim>\<open>0\<close> or \<^verbatim>\<open>""\<close>\<close>
  | Doc quote_doc

record RateType = Route +
  amountIn :: notional
  amountOut :: int
  effectiveRate :: real
  totalFeesUsd :: real

record fallback_quote =
  fq_amountOut :: int
  fq_feeUsd :: real

definition calculateEffectiveRate :: "int \<Rightarrow> int \<Rightarrow> nat \<Rightarrow> nat \<Rightarrow> real" where
  "calculateEffectiveRate amountIn' amountOut' decimalsIn decimalsOut =
     (if amountIn' = 0 then 0
      else
        (let normalizedIn = real_of_int amountIn' / 10 ^ decimalsIn;
             normalizedOut = real_of_int amountOut' / 10 ^ decimalsOut
         in normalizedOut / normalizedIn))"

definition calculateFeeUsd :: "int \<Rightarrow> Asset \<Rightarrow> real" where
  "calculateFeeUsd amount asset =
     (let feeBps = 25;
          amountNum = real_of_int amount / 10 ^ decimals asset;
          usdValue = amountNum * 1
      in usdValue * (feeBps / 10000))"

definition calculateWormholeQuote :: "Route \<Rightarrow> notional \<Rightarrow> service_error + fallback_quote" where
  "calculateWormholeQuote route nt =
     (case nt of
        Malformed text \<Rightarrow> Inl BigIntError
      | Amount amountBN \<Rightarrow>
          (let feeBps = 25;
               amountOutBN = bigint_div (amountBN * (10000 - feeBps)) 10000
           in Inr \<lparr>fq_amountOut = amountOutBN,
                   fq_feeUsd = calculateFeeUsd amountBN (source route)\<rparr>))"

definition createFallbackRate :: "Route \<Rightarrow> notional \<Rightarrow> service_error + RateType" where
  "createFallbackRate route nt =
     (case calculateWormholeQuote route nt of
        Inl error \<Rightarrow> Inl error
      | Inr quoteData \<Rightarrow>
          (case nt of
             Malformed text \<Rightarrow> Inl BigIntError
           | Amount amountInBN \<Rightarrow>
               (let amountOutBN = fq_amountOut quoteData
                in Inr \<lparr>source = source route, destination = destination route,
                        amountIn = nt, amountOut = amountOutBN,
                        effectiveRate =
                          calculateEffectiveRate amountInBN amountOutBN
                            (decimals (source route)) (decimals (destination route)),
                        totalFeesUsd = fq_feeUsd quoteData\<rparr>)))"

text \<open>
  The second half of \<^verbatim>\<open>getSingleRate\<close>, from \<^verbatim>\<open>const amountInBN = BigInt(notional)\<close>
  on, for a quote document; \<open>asQuoteData\<close> is the object of \<^verbatim>\<open>calculateWormholeQuote\<close>
  read as such a document (its amount is a non-empty string, hence truthy).
\<close>

fun firstTruthy :: "js_field list \<Rightarrow> js_field" where
  "firstTruthy [] = Falsy"
| "firstTruthy (Falsy # rest) = firstTruthy rest"
| "firstTruthy (field # rest) = field"

definition truthyNumber :: "real option \<Rightarrow> bool" where
  "truthyNumber x = (case x of None \<Rightarrow> False | Some v \<Rightarrow> v \<noteq> 0)"

definition asQuoteData :: "fallback_quote \<Rightarrow> quote_doc" where
  "asQuoteData q =
     \<lparr>doc_amountOut = Integral (fq_amountOut q), doc_targetAmount = Falsy,
      doc_estimatedAmount = Falsy, doc_toAmount = Falsy,
      doc_feeUsd = Some (fq_feeUsd q), doc_feeUSD = None\<rparr>"

definition rateFromQuote :: "Route \<Rightarrow> notional \<Rightarrow> quote_doc \<Rightarrow> service_error + RateType" where
  "rateFromQuote route nt quoteData =
     (case nt of
        Malformed text \<Rightarrow> Inl BigIntError
      | Amount amountInBN \<Rightarrow>
          (case (case firstTruthy [doc_amountOut quoteData, doc_targetAmount quoteData,
                                   doc_estimatedAmount quoteData, doc_toAmount quoteData] of
                   Falsy \<Rightarrow> Inr amountInBN
                 | Integral m \<Rightarrow> Inr m
                 | OtherTruthy \<Rightarrow> Inl BigIntError) of
             Inl error \<Rightarrow> Inl error
           | Inr amountOutBN \<Rightarrow>
               (let feeUsd =
                      (if truthyNumber (doc_feeUsd quoteData) then the (doc_feeUsd quoteData)
                       else if truthyNumber (doc_feeUSD quoteData) then the (doc_feeUSD quoteData)
                       else calculateFeeUsd amountInBN (source route))
                in Inr \<lparr>source = source route, destination = destination route,
                        amountIn = nt, amountOut = amountOutBN,
                        effectiveRate =
                          calculateEffectiveRate amountInBN amountOutBN
                            (decimals (source route)) (decimals (destination route)),
                        totalFeesUsd = feeUsd\<rparr>)))"

text \<open>
  The network as the service reaches it for a quote: the endpoint, the route and the
  notional of the request decide what one call of \<^verbatim>\<open>fetch\<close> does to the world. The
  loop over the endpoints stops at the first response that is \<^verbatim>\<open>ok\<close> and whose body
  parses; a thrown \<^verbatim>\<open>fetchWithRetry\<close>, a response that is not \<^verbatim>\<open>ok\<close> and a body that
  does not parse all lead to the next endpoint.
\<close>

type_synonym 'w network = "string \<Rightarrow> Route \<Rightarrow> notional \<Rightarrow> 'w \<Rightarrow> quote_body outcome \<times> 'w"

definition quoteEndpoints :: "string \<Rightarrow> string list" where
  "quoteEndpoints baseUrl = [baseUrl @ ''/v1/quote'', baseUrl @ ''/api/v1/quote'', baseUrl @ ''/quote'']"

fun fetchQuoteData ::
  "RetryConfig \<Rightarrow> 'w network \<Rightarrow> Route \<Rightarrow> notional \<Rightarrow> string list \<Rightarrow> 'w \<Rightarrow> quote_doc option \<times> 'w" where
  "fetchQuoteData retryConfig net route nt [] w = (None, w)"
| "fetchQuoteData retryConfig net route nt (endpoint # rest) w =
     (case fetchWithRetry (retryConfig\<lparr>maxRetries := 1\<rparr>) (net endpoint route nt) w of
        (Inr response, _, w') \<Rightarrow>
          if ok response then
            (case body response of
               Unparsable \<Rightarrow> fetchQuoteData retryConfig net route nt rest w'
             | FalsyJson \<Rightarrow> (None, w')
             | Doc quoteData \<Rightarrow> (Some quoteData, w'))
          else fetchQuoteData retryConfig net route nt rest w'
      | (Inl error, _, w') \<Rightarrow> fetchQuoteData retryConfig net route nt rest w')"

definition getSingleRate ::
  "RetryConfig \<Rightarrow> string \<Rightarrow> 'w network \<Rightarrow> Route \<Rightarrow> notional \<Rightarrow> 'w
     \<Rightarrow> (service_error + RateType) \<times> 'w" where
  "getSingleRate retryConfig baseUrl net route nt w =
     (case fetchQuoteData retryConfig net route nt (quoteEndpoints baseUrl) w of
        (Some quoteData, w') \<Rightarrow> (rateFromQuote route nt quoteData, w')
      | (None, w') \<Rightarrow>
          (case calculateWormholeQuote route nt of
             Inl error \<Rightarrow> (Inl error, w')
           | Inr quoteData \<Rightarrow> (rateFromQuote route nt (asQuoteData quoteData), w')))"

text \<open>
  \<^verbatim>\<open>getRates\<close>: for each route, for each notional, \<^verbatim>\<open>getSingleRate\<close> inside a
  \<^verbatim>\<open>try\<close> whose \<^verbatim>\<open>catch\<close> pushes \<^verbatim>\<open>createFallbackRate\<close>; an error thrown by the
  \<^verbatim>\<open>catch\<close> block itself ends \<^verbatim>\<open>getRates\<close>.
\<close>

definition rateOrFallback ::
  "RetryConfig \<Rightarrow> string \<Rightarrow> 'w network \<Rightarrow> Route \<Rightarrow> notional \<Rightarrow> 'w
     \<Rightarrow> (service_error + RateType) \<times> 'w" where
  "rateOrFallback retryConfig baseUrl net route nt w =
     (case getSingleRate retryConfig baseUrl net route nt w of
        (Inr rate, w') \<Rightarrow> (Inr rate, w')
      | (Inl error, w') \<Rightarrow> (createFallbackRate route nt, w'))"

fun ratesOfRoute ::
  "RetryConfig \<Rightarrow> string \<Rightarrow> 'w network \<Rightarrow> Route \<Rightarrow> notional list \<Rightarrow> RateType list \<Rightarrow> 'w
     \<Rightarrow> (service_error + RateType list) \<times> 'w" where
  "ratesOfRoute retryConfig baseUrl net route [] rates w = (Inr rates, w)"
| "ratesOfRoute retryConfig baseUrl net route (nt # rest) rates w =
     (case rateOrFallback retryConfig baseUrl net route nt w of
        (Inr rate, w') \<Rightarrow> ratesOfRoute retryConfig baseUrl net route rest (rates @ [rate]) w'
      | (Inl error, w') \<Rightarrow> (Inl error, w'))"

fun ratesOfRoutes ::
  "RetryConfig \<Rightarrow> string \<Rightarrow> 'w network \<Rightarrow> Route list \<Rightarrow> notional list \<Rightarrow> RateType list \<Rightarrow> 'w
     \<Rightarrow> (service_error + RateType list) \<times> 'w" where
  "ratesOfRoutes retryConfig baseUrl net [] notionals rates w = (Inr rates, w)"
| "ratesOfRoutes retryConfig baseUrl net (route # rest) notionals rates w =
     (case ratesOfRoute retryConfig baseUrl net route notionals rates w of
        (Inr rates', w') \<Rightarrow> ratesOfRoutes retryConfig baseUrl net rest notionals rates' w'
      | (Inl error, w') \<Rightarrow> (Inl error, w'))"

definition getRates ::
  "RetryConfig \<Rightarrow> string \<Rightarrow> 'w network \<Rightarrow> Route list \<Rightarrow> notional list \<Rightarrow> 'w
     \<Rightarrow> (service_error + RateType list) \<times> 'w" where
  "getRates retryConfig baseUrl net routes notionals w =
     ratesOfRoutes retryConfig baseUrl net routes notionals [] w"

text \<open>
  A network for the scenarios, on a world that counts the requests: every quote request
  for the route from Ethereum to Polygon is answered 503, every other one 200 with a
  document that quotes the notional less 10 units and a fee of 0.5 USD.
\<close>

definition usdcArbitrum :: Asset where
  "usdcArbitrum =
     \<lparr>chainId = ''42161'', assetId = ''0xff970a61a04b1ca14834a43f5de4533ebddb5cc8'',
      symbol = ''USDC'', decimals = 6\<rparr>"

definition ethToArbitrum :: Route where
  "ethToArbitrum = \<lparr>source = usdcEthereum, destination = usdcArbitrum\<rparr>"

definition liveDoc :: "notional \<Rightarrow> quote_doc" where
  "liveDoc nt =
     \<lparr>doc_amountOut = (case nt of Amount n \<Rightarrow> Integral (n - 10) | Malformed text \<Rightarrow> Falsy),
      doc_targetAmount = Falsy, doc_estimatedAmount = Falsy, doc_toAmount = Falsy,
      doc_feeUsd = Some (1 / 2), doc_feeUSD = None\<rparr>"

definition partlyDown :: "nat network" where
  "partlyDown endpoint route nt w =
     (if route = ethToPolygon
      then (Responded \<lparr>status = 503, retryAfterHeader = Absent, body = Unparsable\<rparr>, Suc w)
      else (Responded \<lparr>status = 200, retryAfterHeader = Absent, body = Doc (liveDoc nt)\<rparr>, Suc w))"

section \<open>Properties of the circuit breaker\<close>

lemma periodicReset_keeps:
  "state (periodicReset cfg now cb) = state cb"
  "lastFailureTime (periodicReset cfg now cb) = lastFailureTime cb"
  "successCount (periodicReset cfg now cb) = successCount cb"
  by (simp_all add: periodicReset_def)

lemma trippedBreaker_eq:
  "trippedBreaker =
     (\<lparr>state = OPEN, failureCount = 5, successCount = 0, lastFailureTime = 0,
       lastResetTime = 0\<rparr>, 5)"
  by (simp add: trippedBreaker_def defaultConfig_def newCircuitBreaker_def failingOp_def
      execute_def periodicReset_def checkState_def onFailure_def)

lemma probedBreaker_eq:
  "probedBreaker =
     (\<lparr>state = HALF_OPEN, failureCount = 0, successCount = 1, lastFailureTime = 0,
       lastResetTime = 0\<rparr>, 6)"
  by (simp add: probedBreaker_def trippedBreaker_eq defaultConfig_def succeedingOp_def
      execute_def periodicReset_def checkState_def onSuccess_def)

text \<open>
  C6, as stated, fails on the boundary: the tripped breaker has \<open>lastFailureTime = 0\<close>
  and \<open>timeout = 60000\<close>; a call at \<open>now = 60000\<close>, where
  \<open>now - lastFailureTime \<ge> timeout\<close> holds, is still rejected with the open-circuit
  error, the operation is not run (the call counter stays 5) and the breaker stays OPEN.
\<close>

theorem open_timeout_boundary_counterexample:
  "state (fst trippedBreaker) = OPEN
   \<and> 60000 - lastFailureTime (fst trippedBreaker) \<ge> timeout defaultConfig
   \<and> execute defaultConfig succeedingOp 60000 60000 (fst trippedBreaker) (snd trippedBreaker)
       = (Inl CircuitOpenError, fst trippedBreaker, 5)"
  by (simp add: trippedBreaker_eq defaultConfig_def execute_def periodicReset_def
      checkState_def)

text \<open>
  C6, amended. For every call to \<open>execute\<close> while the breaker is OPEN: if
  \<open>now - lastFailureTime\<close> does not exceed \<open>timeout\<close> (it is less than or equal to
  it), the call fails at once with the open-circuit error, the operation is not invoked
  (the world is unchanged) and only the periodic reset has touched the breaker; once
  \<open>now - lastFailureTime\<close> is strictly greater than \<open>timeout\<close>, the call is admitted
  and the operation runs on a breaker whose state is already HALF_OPEN (with the success
  counter zeroed).
\<close>

theorem open_rejects_until_timeout_exceeded:
  "state cb = OPEN \<Longrightarrow>
   (now - lastFailureTime cb \<le> timeout cfg \<longrightarrow>
      execute cfg fn now fin cb w = (Inl CircuitOpenError, periodicReset cfg now cb, w))
   \<and> (now - lastFailureTime cb > timeout cfg \<longrightarrow>
      execute cfg fn now fin cb w =
        (case fn w of
           (Inr result, w') \<Rightarrow>
             (Inr result,
              onSuccess cfg ((periodicReset cfg now cb)\<lparr>state := HALF_OPEN, successCount := 0\<rparr>), w')
         | (Inl error, w') \<Rightarrow>
             (Inl (OperationError error),
              onFailure cfg fin ((periodicReset cfg now cb)\<lparr>state := HALF_OPEN, successCount := 0\<rparr>),
              w')))"
  by (simp add: execute_def checkState_def periodicReset_keeps Let_def)

theorem open_rejects_until_timeout_exceeded_witness:
  "execute defaultConfig succeedingOp 60000 60000 (fst trippedBreaker) 5
     = (Inl CircuitOpenError, fst trippedBreaker, 5)
   \<and> execute defaultConfig succeedingOp 60001 60001 (fst trippedBreaker) 5
     = (Inr (), (fst trippedBreaker)\<lparr>state := HALF_OPEN, failureCount := 0, successCount := 1\<rparr>, 6)"
proof -
  let ?cb = "fst trippedBreaker"
  have st: "state ?cb = OPEN"
    by (simp add: trippedBreaker_eq)
  have early: "60000 - lastFailureTime ?cb \<le> timeout defaultConfig"
    by (simp add: trippedBreaker_eq defaultConfig_def)
  have late: "60001 - lastFailureTime ?cb > timeout defaultConfig"
    by (simp add: trippedBreaker_eq defaultConfig_def)
  note inst = open_rejects_until_timeout_exceeded [OF st, where cfg = defaultConfig
      and fn = succeedingOp and w = 5]
  have a: "execute defaultConfig succeedingOp 60000 60000 ?cb 5
      = (Inl CircuitOpenError, periodicReset defaultConfig 60000 ?cb, 5)"
    using inst [of 60000 60000] early by blast
  have b: "execute defaultConfig succeedingOp 60001 60001 ?cb 5
      = (Inr (), onSuccess defaultConfig
           ((periodicReset defaultConfig 60001 ?cb)\<lparr>state := HALF_OPEN, successCount := 0\<rparr>), 6)"
    using inst [of 60001 60001] late by (simp add: succeedingOp_def)
  show ?thesis
    unfolding a b
    by (simp add: trippedBreaker_eq defaultConfig_def periodicReset_def onSuccess_def)
qed

text \<open>
  C2, as stated, fails. The breaker \<open>probedBreaker\<close> is reached from a fresh default
  breaker by five failures and, after the open timeout, one success: it is HALF_OPEN
  with the failure counter back at 0. A failing operation at 60002 ms raises the
  failure counter to 1, below the threshold 5, and the breaker stays HALF_OPEN. The
  same happens to the tripped breaker when its first probe comes after the reset
  timeout (300001 ms): the periodic reset zeroes the counter, the breaker turns
  HALF_OPEN, the probe fails and the breaker is still HALF_OPEN afterwards.
\<close>

theorem half_open_failure_counterexample:
  "state (fst probedBreaker) = HALF_OPEN
   \<and> fst (execute defaultConfig failingOp 60002 60002 (fst probedBreaker) 6)
       = Inl (OperationError ''503'')
   \<and> state (fst (snd (execute defaultConfig failingOp 60002 60002 (fst probedBreaker) 6)))
       = HALF_OPEN
   \<and> state (fst trippedBreaker) = OPEN
   \<and> fst (execute defaultConfig failingOp 300001 300001 (fst trippedBreaker) 5)
       = Inl (OperationError ''503'')
   \<and> state (fst (snd (execute defaultConfig failingOp 300001 300001 (fst trippedBreaker) 5)))
       = HALF_OPEN"
  by (simp add: probedBreaker_eq trippedBreaker_eq defaultConfig_def failingOp_def
      execute_def periodicReset_def checkState_def onFailure_def)

text \<open>
  C2, amended. Whenever the wrapped operation runs while the breaker is HALF_OPEN (the
  breaker was HALF_OPEN on entry, or it was OPEN and \<open>now - lastFailureTime\<close> exceeds
  \<open>timeout\<close>, so that this call is the probe) and the operation fails, the error is
  rethrown and the breaker returns to OPEN exactly when the failure counter, after the
  periodic reset (if due) and the increment for this failure, has reached
  \<open>failureThreshold\<close>; otherwise it stays HALF_OPEN.
\<close>

theorem half_open_failure_reopens_at_threshold:
  assumes "state cb = HALF_OPEN \<or> (state cb = OPEN \<and> now - lastFailureTime cb > timeout cfg)"
    and "fn w = (Inl e, w')"
  shows "fst (execute cfg fn now fin cb w) = Inl (OperationError e)
    \<and> state (fst (snd (execute cfg fn now fin cb w))) =
        (if failureCount (periodicReset cfg now cb) + 1 \<ge> failureThreshold cfg
         then OPEN else HALF_OPEN)"
  using assms
  by (auto simp: execute_def checkState_def periodicReset_keeps Let_def onFailure_def)

theorem half_open_failure_reopens_at_threshold_witness:
  "state (fst (snd (execute defaultConfig failingOp 60001 60001 (fst trippedBreaker) 5))) = OPEN
   \<and> state (fst (snd (execute defaultConfig failingOp 60002 60002 (fst probedBreaker) 6)))
       = HALF_OPEN"
proof -
  have probe: "state (fst trippedBreaker) = HALF_OPEN
      \<or> (state (fst trippedBreaker) = OPEN
          \<and> 60001 - lastFailureTime (fst trippedBreaker) > timeout defaultConfig)"
    by (simp add: trippedBreaker_eq defaultConfig_def)
  have half: "state (fst probedBreaker) = HALF_OPEN
      \<or> (state (fst probedBreaker) = OPEN
          \<and> 60002 - lastFailureTime (fst probedBreaker) > timeout defaultConfig)"
    by (simp add: probedBreaker_eq)
  have f5: "failingOp 5 = (Inl ''503'', 6)" and f6: "failingOp 6 = (Inl ''503'', 7)"
    by (simp_all add: failingOp_def)
  from half_open_failure_reopens_at_threshold
      [where cb = "fst trippedBreaker" and cfg = defaultConfig and fn = failingOp and w = 5
        and now = 60001 and fin = 60001, OF probe f5]
    half_open_failure_reopens_at_threshold
      [where cb = "fst probedBreaker" and cfg = defaultConfig and fn = failingOp and w = 6
        and now = 60002 and fin = 60002, OF half f6]
  show ?thesis
    by (simp add: trippedBreaker_eq probedBreaker_eq defaultConfig_def periodicReset_def)
qed

section \<open>Properties of the rate limiter\<close>

text \<open>The window start, the counter and the admissions after one call of \<^verbatim>\<open>process\<close>.\<close>

lemma process_fields:
  "windowStart (process cfg now s) =
     (if processing s \<and> queue s = [] then windowStart s
      else if now - windowStart s \<ge> windowMs cfg then now else windowStart s)"
  "requestCount (process cfg now s) =
     (if processing s \<and> queue s = [] then requestCount s
      else (let n1 = (if now - windowStart s \<ge> windowMs cfg then 0 else requestCount s)
            in if n1 < maxRequests cfg \<and> queue s \<noteq> [] then n1 + 1 else n1))"
  "resolved (process cfg now s) =
     (if processing s \<and> queue s = [] then resolved s
      else (let n1 = (if now - windowStart s \<ge> windowMs cfg then 0 else requestCount s)
            in if n1 < maxRequests cfg \<and> queue s \<noteq> []
               then resolved s @ [(hd (queue s), now)] else resolved s))"
  by (simp_all add: process_def Let_def)

lemma filter_length_mono:
  "(\<And>x. x \<in> set xs \<Longrightarrow> P x \<Longrightarrow> Q x) \<Longrightarrow> length (filter P xs) \<le> length (filter Q xs)"
  by (induction xs) auto

lemma filter_length_split:
  "(\<And>x. x \<in> set xs \<Longrightarrow> P x \<Longrightarrow> Q x \<or> R x) \<Longrightarrow>
   length (filter P xs) \<le> length (filter Q xs) + length (filter R xs)"
  by (induction xs) auto

lemma windowInv_later:
  "windowInv cfg T W n lg \<Longrightarrow> T \<le> T' \<Longrightarrow> windowInv cfg T' W n lg"
  unfolding windowInv_def by fastforce

lemma windowInv_reset:
  assumes w: "0 < windowMs cfg" and inv: "windowInv cfg T W n lg" and "T \<le> now"
    and expired: "windowMs cfg \<le> now - W"
  shows "windowInv cfg now now 0 lg"
proof -
  from inv have ent: "\<forall>e \<in> set lg. snd e \<le> T \<and> snd e < W + windowMs cfg"
    and cur: "length (filter (\<lambda>e. W \<le> snd e) lg) = n" and n: "n \<le> maxRequests cfg"
    and sl: "\<forall>a. admissionsIn a (windowMs cfg) lg \<le> 2 * maxRequests cfg"
    by (simp_all add: windowInv_def)
  have old: "\<forall>e \<in> set lg. snd e < now" using ent expired by fastforce
  have a: "\<forall>e \<in> set lg. snd e \<le> now \<and> snd e < now + windowMs cfg"
    using old w by fastforce
  have b: "length (filter (\<lambda>e. now \<le> snd e) lg) = 0"
    using old by (auto simp: filter_empty_conv)
  have "length (filter (\<lambda>e. now - windowMs cfg < snd e \<and> snd e < now) lg)
      \<le> length (filter (\<lambda>e. W \<le> snd e) lg)"
    by (rule filter_length_mono) (use expired in linarith)
  with cur n have c: "length (filter (\<lambda>e. now - windowMs cfg < snd e \<and> snd e < now) lg)
      \<le> maxRequests cfg" by simp
  from a b c sl show ?thesis by (simp add: windowInv_def)
qed

lemma windowInv_admit:
  assumes inv: "windowInv cfg now W n lg" and fresh: "now < W + windowMs cfg"
    and room: "n < maxRequests cfg"
  shows "windowInv cfg now W (Suc n) (lg @ [(c, now)])"
proof -
  from inv have W: "W \<le> now"
    and ent: "\<forall>e \<in> set lg. snd e \<le> now \<and> snd e < W + windowMs cfg"
    and cur: "length (filter (\<lambda>e. W \<le> snd e) lg) = n"
    and prev: "length (filter (\<lambda>e. W - windowMs cfg < snd e \<and> snd e < W) lg) \<le> maxRequests cfg"
    and sl: "\<forall>a. admissionsIn a (windowMs cfg) lg \<le> 2 * maxRequests cfg"
    by (simp_all add: windowInv_def)
  let ?lg = "lg @ [(c, now)]"
  have a: "\<forall>e \<in> set ?lg. snd e \<le> now \<and> snd e < W + windowMs cfg"
    using ent fresh by auto
  have b: "length (filter (\<lambda>e. W \<le> snd e) ?lg) = Suc n"
    using cur W by simp
  have c: "length (filter (\<lambda>e. W - windowMs cfg < snd e \<and> snd e < W) ?lg) \<le> maxRequests cfg"
    using prev W by simp
  have d: "admissionsIn a (windowMs cfg) ?lg \<le> 2 * maxRequests cfg" for a
  proof (cases "a \<le> now \<and> now < a + windowMs cfg")
    case False
    then have "admissionsIn a (windowMs cfg) ?lg = admissionsIn a (windowMs cfg) lg"
      by (auto simp: admissionsIn_def)
    with sl show ?thesis by simp
  next
    case True
    have "admissionsIn a (windowMs cfg) ?lg
        \<le> length (filter (\<lambda>e. W \<le> snd e) ?lg)
          + length (filter (\<lambda>e. W - windowMs cfg < snd e \<and> snd e < W) ?lg)"
      unfolding admissionsIn_def
      by (rule filter_length_split) (use True W in linarith)
    with b c room show ?thesis by simp
  qed
  from W a b c d room show ?thesis by (simp add: windowInv_def)
qed

lemma process_windowInv:
  assumes w: "0 < windowMs cfg"
    and inv: "windowInv cfg T (windowStart s) (requestCount s) (resolved s)" and T: "T \<le> now"
  shows "windowInv cfg now (windowStart (process cfg now s)) (requestCount (process cfg now s))
           (resolved (process cfg now s))"
proof (cases "processing s \<and> queue s = []")
  case True
  with windowInv_later [OF inv T] show ?thesis by (simp add: process_fields)
next
  case False
  let ?W1 = "if now - windowStart s \<ge> windowMs cfg then now else windowStart s"
  let ?n1 = "if now - windowStart s \<ge> windowMs cfg then 0 else requestCount s"
  have inv1: "windowInv cfg now ?W1 ?n1 (resolved s)"
    using windowInv_reset [OF w inv T] windowInv_later [OF inv T] by simp
  have fresh: "now < ?W1 + windowMs cfg" using w by auto
  show ?thesis
  proof (cases "?n1 < maxRequests cfg \<and> queue s \<noteq> []")
    case True
    with windowInv_admit [OF inv1 fresh, of "hd (queue s)"] False show ?thesis
      by (simp add: process_fields Let_def)
  next
    case no: False
    with inv1 False show ?thesis by (auto simp add: process_fields Let_def)
  qed
qed

lemma step_windowInv:
  assumes "0 < windowMs cfg"
    and "windowInv cfg T (windowStart s) (requestCount s) (resolved s)" and "T \<le> eventTime e"
  shows "windowInv cfg (eventTime e) (windowStart (step cfg e s)) (requestCount (step cfg e s))
           (resolved (step cfg e s))"
proof (cases e)
  case (Acquire c t)
  with process_windowInv [of cfg T "s\<lparr>queue := queue s @ [c]\<rparr>" t] assms show ?thesis
    by (simp add: acquire_def)
next
  case (TimerFires t)
  with process_windowInv [of cfg T "s\<lparr>pendingTimers := pendingTimers s - 1\<rparr>" t] assms
    windowInv_later [of cfg T "windowStart s" "requestCount s" "resolved s" t]
  show ?thesis by (simp add: timerFires_def)
qed

lemma run_windowInv:
  assumes "0 < windowMs cfg"
  shows "sorted (map eventTime evs) \<Longrightarrow> \<forall>e \<in> set evs. T \<le> eventTime e \<Longrightarrow>
    windowInv cfg T (windowStart s) (requestCount s) (resolved s) \<Longrightarrow>
    \<exists>T'. windowInv cfg T' (windowStart (run cfg evs s)) (requestCount (run cfg evs s))
           (resolved (run cfg evs s))"
proof (induction evs arbitrary: T s)
  case Nil
  then show ?case by auto
next
  case (Cons e es)
  from Cons.prems have T: "T \<le> eventTime e" by simp
  have "windowInv cfg (eventTime e) (windowStart (step cfg e s)) (requestCount (step cfg e s))
      (resolved (step cfg e s))"
    by (rule step_windowInv [OF assms Cons.prems(3) T])
  moreover from Cons.prems(1) have "sorted (map eventTime es)"
    and "\<forall>x \<in> set es. eventTime e \<le> eventTime x" by simp_all
  ultimately show ?case using Cons.IH [of "eventTime e" "step cfg e s"] by simp
qed

lemma admissionsIn_empty_window: "len \<le> 0 \<Longrightarrow> admissionsIn a len lg = 0"
  by (auto simp: admissionsIn_def filter_empty_conv)

lemma windowInv_new: "windowInv cfg t0 t0 0 []"
  by (simp add: windowInv_def admissionsIn_def)

lemma burst_run:
  "run twoPerSecond burst (newRateLimiter 0) =
     \<lparr>queue = [], processing = False, requestCount = 2, windowStart = 1000,
      pendingTimers = 0, resolved = [(1, 999), (2, 999), (3, 1000), (4, 1000)]\<rparr>"
  by code_simp

text \<open>
  C1, as stated, fails. A limiter of 2 requests per 1000 ms is created at time 0; two
  callers acquire at 999 ms and two at 1000 ms. The window started at 0 admits the
  first two, the window that starts at 1000 admits the other two at once: four
  admissions, more than \<open>maxRequests = 2\<close>, in the interval of length 1000 from 999.
\<close>

theorem sliding_window_counterexample:
  "resolved (run twoPerSecond burst (newRateLimiter 0)) = [(1, 999), (2, 999), (3, 1000), (4, 1000)]
   \<and> admissionsIn 999 (windowMs twoPerSecond) (resolved (run twoPerSecond burst (newRateLimiter 0))) = 4
   \<and> maxRequests twoPerSecond = 2"
  by code_simp

text \<open>
  C1, amended. The limiter counts in fixed windows, not sliding ones. For every
  configuration and every run of \<^verbatim>\<open>acquire()\<close> calls and timer callbacks on a fresh
  limiter, with a clock that does not go back: the admissions within any interval of
  length \<open>windowMs\<close> never exceed \<open>2 * maxRequests\<close>; and, for \<open>windowMs > 0\<close>, the
  admissions since the current \<open>windowStart\<close> are exactly \<open>requestCount\<close>, which never
  exceeds \<open>maxRequests\<close>. Window accounting in a call of \<^verbatim>\<open>process\<close> that does not
  return at once: when \<open>now - windowStart \<ge> windowMs\<close>, \<open>requestCount\<close> is reset to 0
  and \<open>windowStart\<close> to \<open>now\<close>; the head of the queue is admitted only when the
  counter is then below \<open>maxRequests\<close>, and each admission increments the counter.
\<close>

theorem rate_limiter_fixed_window_bound:
  assumes "sorted (map eventTime evs)" and "\<forall>e \<in> set evs. t0 \<le> eventTime e"
  shows "admissionsIn a (windowMs cfg) (resolved (run cfg evs (newRateLimiter t0)))
      \<le> 2 * maxRequests cfg
    \<and> (0 < windowMs cfg \<longrightarrow>
         length (filter (\<lambda>e. windowStart (run cfg evs (newRateLimiter t0)) \<le> snd e)
                   (resolved (run cfg evs (newRateLimiter t0))))
           = requestCount (run cfg evs (newRateLimiter t0))
         \<and> requestCount (run cfg evs (newRateLimiter t0)) \<le> maxRequests cfg)
    \<and> (\<not> (processing s \<and> queue s = []) \<longrightarrow>
         windowStart (process cfg now s) =
           (if now - windowStart s \<ge> windowMs cfg then now else windowStart s)
         \<and> (let n1 = (if now - windowStart s \<ge> windowMs cfg then 0 else requestCount s) in
              if n1 < maxRequests cfg \<and> queue s \<noteq> []
              then requestCount (process cfg now s) = n1 + 1
                   \<and> resolved (process cfg now s) = resolved s @ [(hd (queue s), now)]
                   \<and> queue (process cfg now s) = tl (queue s)
              else requestCount (process cfg now s) = n1
                   \<and> resolved (process cfg now s) = resolved s
                   \<and> queue (process cfg now s) = queue s))"
proof (intro conjI)
  let ?s = "run cfg evs (newRateLimiter t0) :: 'a RateLimiter"
  have init: "windowInv cfg t0 (windowStart (newRateLimiter t0 :: 'a RateLimiter))
      (requestCount (newRateLimiter t0 :: 'a RateLimiter))
      (resolved (newRateLimiter t0 :: 'a RateLimiter))"
    by (simp add: newRateLimiter_def windowInv_new)
  have inv: "\<exists>T. windowInv cfg T (windowStart ?s) (requestCount ?s) (resolved ?s)"
    if "0 < windowMs cfg"
    by (rule run_windowInv [OF that assms init])
  show "admissionsIn a (windowMs cfg) (resolved ?s) \<le> 2 * maxRequests cfg"
  proof (cases "0 < windowMs cfg")
    case True
    from inv [OF True] show ?thesis by (auto simp: windowInv_def)
  next
    case False
    then show ?thesis by (simp add: admissionsIn_empty_window)
  qed
  show "0 < windowMs cfg \<longrightarrow>
      length (filter (\<lambda>e. windowStart ?s \<le> snd e) (resolved ?s)) = requestCount ?s
      \<and> requestCount ?s \<le> maxRequests cfg"
    using inv by (auto simp: windowInv_def)
  show "\<not> (processing s \<and> queue s = []) \<longrightarrow>
         windowStart (process cfg now s) =
           (if now - windowStart s \<ge> windowMs cfg then now else windowStart s)
         \<and> (let n1 = (if now - windowStart s \<ge> windowMs cfg then 0 else requestCount s) in
              if n1 < maxRequests cfg \<and> queue s \<noteq> []
              then requestCount (process cfg now s) = n1 + 1
                   \<and> resolved (process cfg now s) = resolved s @ [(hd (queue s), now)]
                   \<and> queue (process cfg now s) = tl (queue s)
              else requestCount (process cfg now s) = n1
                   \<and> resolved (process cfg now s) = resolved s
                   \<and> queue (process cfg now s) = queue s)"
    by (simp add: process_def Let_def)
qed

theorem rate_limiter_fixed_window_bound_witness:
  "admissionsIn 999 (windowMs twoPerSecond) (resolved (run twoPerSecond burst (newRateLimiter 0)))
     \<le> 2 * maxRequests twoPerSecond
   \<and> requestCount (run twoPerSecond burst (newRateLimiter 0 :: nat RateLimiter)) = 2
   \<and> requestCount (run twoPerSecond burst (newRateLimiter 0 :: nat RateLimiter))
       \<le> maxRequests twoPerSecond"
proof -
  have ordered: "sorted (map eventTime burst)" and later: "\<forall>e \<in> set burst. 0 \<le> eventTime e"
    by (simp_all add: burst_def)
  have pos: "0 < windowMs twoPerSecond" by (simp add: twoPerSecond_def)
  from rate_limiter_fixed_window_bound [OF ordered later, of 999 twoPerSecond] pos
  have "admissionsIn 999 (windowMs twoPerSecond)
        (resolved (run twoPerSecond burst (newRateLimiter 0))) \<le> 2 * maxRequests twoPerSecond"
    and "requestCount (run twoPerSecond burst (newRateLimiter 0 :: nat RateLimiter))
        \<le> maxRequests twoPerSecond"
    by blast+
  then show ?thesis by (simp add: burst_run)
qed


section \<open>Properties of the retrying requester\<close>

declare fetchLoop.simps [simp del]
declare showNat.simps [simp del]

subsection \<open>Messages and delays\<close>

lemma digit_nth:
  assumes "n < 10"
  shows "isDigit (''0123456789'' ! n) \<and> digitValue (''0123456789'' ! n) = n"
proof -
  from assms have "n \<in> {0, 1, 2, 3, 4, 5, 6, 7, 8, 9}" by auto
  then show ?thesis by (auto simp: isDigit_def digitValue_def)
qed

lemma showNat_digits: "c \<in> set (showNat n) \<Longrightarrow> isDigit c"
proof (induction n arbitrary: c rule: showNat.induct)
  case (1 n)
  show ?case
  proof (cases "n < 10")
    case True
    with "1.prems" digit_nth [of n] show ?thesis by (simp add: showNat.simps [of n])
  next
    case False
    with "1.prems" "1.IH" digit_nth [of "n mod 10"] show ?thesis
      by (auto simp: showNat.simps [of n])
  qed
qed

lemma showNat_nonempty: "showNat n \<noteq> []"
  by (simp add: showNat.simps [of n])

lemma parseDigits_snoc: "parseDigits (ds @ [c]) = 10 * parseDigits ds + digitValue c"
  by (simp add: parseDigits_def)

lemma parseDigits_showNat: "parseDigits (showNat n) = n"
proof (induction n rule: showNat.induct)
  case (1 n)
  show ?case
  proof (cases "n < 10")
    case True
    with digit_nth [of n] show ?thesis by (simp add: showNat.simps [of n] parseDigits_def)
  next
    case False
    with "1.IH" digit_nth [of "n mod 10"] show ?thesis
      by (simp add: showNat.simps [of n] parseDigits_snoc)
  qed
qed

lemma firstDigits_embedded:
  assumes "\<forall>c \<in> set pre. \<not> isDigit c" and "\<not> isDigit d"
  shows "firstDigits (pre @ showNat n @ d # rest) = showNat n"
proof -
  obtain x xs where sn: "showNat n = x # xs"
    using showNat_nonempty [of n] by (cases "showNat n") auto
  have x: "isDigit x" using showNat_digits [of x n] sn by simp
  have "dropWhile (\<lambda>c. \<not> isDigit c) (pre @ showNat n @ d # rest) = showNat n @ d # rest"
    using assms(1) x by (simp add: sn dropWhile_append2)
  moreover have "takeWhile isDigit (showNat n @ d # rest) = showNat n"
    using assms(2) showNat_digits [of _ n] by (simp add: takeWhile_append2)
  ultimately show ?thesis by (simp add: firstDigits_def)
qed

lemma includes_str_hd: "includes_str s (p # ps) \<Longrightarrow> p \<in> set s"
  by (induction s) auto

lemma server_error_not_rate_limited:
  "\<not> includes_str (''Server error: '' @ showNat n) ''Rate limited''"
proof
  assume "includes_str (''Server error: '' @ showNat n) ''Rate limited''"
  then have "CHR ''R'' \<in> set (''Server error: '' @ showNat n)" by (rule includes_str_hd)
  then have "CHR ''R'' \<in> set (showNat n)" by simp
  then have "isDigit CHR ''R''" by (rule showNat_digits)
  then show False by (simp add: isDigit_def)
qed

lemma server_error_delay:
  "retryDelay cfg i (''Server error: '' @ showNat n) = min (baseDelayMs cfg * 2 ^ i) (maxDelayMs cfg)"
  unfolding retryDelay_def using server_error_not_rate_limited [of n] by (simp only: if_False)

text \<open>
  The first run of digits of a text is not changed by text without digits before it,
  nor by a character that is not a digit after it.
\<close>

lemma firstDigits_after:
  "\<forall>c \<in> set pre. \<not> isDigit c \<Longrightarrow> firstDigits (pre @ t) = firstDigits t"
  by (simp add: firstDigits_def dropWhile_append2)

lemma takeWhile_digits_snoc:
  "\<not> isDigit d \<Longrightarrow> takeWhile isDigit (t @ [d]) = takeWhile isDigit t"
  by (induction t) auto

lemma firstDigits_before:
  "\<not> isDigit d \<Longrightarrow> firstDigits (t @ [d]) = firstDigits t"
proof (induction t)
  case Nil
  then show ?case by (simp add: firstDigits_def)
next
  case (Cons x t)
  show ?case
  proof (cases "isDigit x")
    case True
    with Cons.prems show ?thesis by (simp add: firstDigits_def takeWhile_digits_snoc)
  next
    case False
    with Cons show ?thesis by (simp add: firstDigits_def)
  qed
qed

lemma rate_limited_seconds:
  "retryAfterSeconds (''Rate limited: retry after '' @ t @ ''s'') = retryAfterSeconds t"
proof -
  have pre: "\<forall>c \<in> set ''Rate limited: retry after ''. \<not> isDigit c"
    by (simp add: isDigit_def)
  have s: "\<not> isDigit CHR ''s''" by (simp add: isDigit_def)
  have "firstDigits (''Rate limited: retry after '' @ (t @ ''s'')) = firstDigits (t @ ''s'')"
    by (rule firstDigits_after [OF pre])
  also have "\<dots> = firstDigits t" by (rule firstDigits_before [OF s])
  finally have "firstDigits (''Rate limited: retry after '' @ t @ ''s'') = firstDigits t" .
  then show ?thesis unfolding retryAfterSeconds_def by (simp only:)
qed

lemma rate_limited_delay:
  "retryDelay cfg i (''Rate limited: retry after '' @ t @ ''s'') = int (retryAfterSeconds t) * 1000"
proof -
  have inc: "includes_str (''Rate limited: retry after '' @ t @ ''s'') ''Rate limited''"
    by simp
  show ?thesis
    unfolding retryDelay_def rate_limited_seconds using inc by (simp only: if_True)
qed

text \<open>The seconds read from the decimal digits of a number are that number.\<close>

lemma firstDigits_showNat: "firstDigits (showNat n) = showNat n"
proof -
  obtain x xs where sn: "showNat n = x # xs"
    using showNat_nonempty [of n] by (cases "showNat n") auto
  have "isDigit x" using showNat_digits [of x n] sn by simp
  then have "dropWhile (\<lambda>c. \<not> isDigit c) (showNat n) = showNat n"
    by (simp add: sn)
  moreover have "takeWhile isDigit (showNat n) = showNat n"
    using showNat_digits [of _ n] by (simp add: takeWhile_eq_all_conv)
  ultimately show ?thesis by (simp add: firstDigits_def)
qed

lemma retryAfterSeconds_showNat:
  "retryAfterSeconds (showNat n) = n" "retryAfterSeconds (CHR ''-'' # showNat n) = n"
proof -
  show a: "retryAfterSeconds (showNat n) = n"
    by (simp add: retryAfterSeconds_def firstDigits_showNat showNat_nonempty parseDigits_showNat)
  have "firstDigits (''-'' @ showNat n) = firstDigits (showNat n)"
    by (rule firstDigits_after) (simp add: isDigit_def)
  then have "retryAfterSeconds (CHR ''-'' # showNat n) = retryAfterSeconds (showNat n)"
    by (simp add: retryAfterSeconds_def)
  with a show "retryAfterSeconds (CHR ''-'' # showNat n) = n" by simp
qed

lemma retryAfterSeconds_prints:
  "retryAfterSeconds ''60'' = 60" "retryAfterSeconds ''NaN'' = 60"
  "retryAfterSeconds ''Infinity'' = 60" "retryAfterSeconds ''1e+24'' = 1"
  by (simp_all add: retryAfterSeconds_def firstDigits_def isDigit_def parseDigits_def
      digitValue_def)

text \<open>What one attempt gives, by the kind of outcome, with the delay its error asks for.\<close>

lemma tryAttempt_cases:
  "tryAttempt (Threw m) = Inl m"
  "status r = 429 \<Longrightarrow> \<exists>e. tryAttempt (Responded r) = Inl e \<and>
     retryDelay cfg i e = int (retryAfterSeconds (retryAfterText (retryAfterHeader r))) * 1000"
  "status r \<noteq> 429 \<Longrightarrow> status r \<ge> 500 \<Longrightarrow> \<exists>e. tryAttempt (Responded r) = Inl e \<and>
     retryDelay cfg i e = min (baseDelayMs cfg * 2 ^ i) (maxDelayMs cfg)"
  "status r \<noteq> 429 \<Longrightarrow> status r < 500 \<Longrightarrow> tryAttempt (Responded r) = Inr r"
proof -
  show "tryAttempt (Threw m) = Inl m" by (simp add: tryAttempt_def)
  show "status r \<noteq> 429 \<Longrightarrow> status r < 500 \<Longrightarrow> tryAttempt (Responded r) = Inr r"
    by (simp add: tryAttempt_def)
  show "status r \<noteq> 429 \<Longrightarrow> status r \<ge> 500 \<Longrightarrow> \<exists>e. tryAttempt (Responded r) = Inl e \<and>
     retryDelay cfg i e = min (baseDelayMs cfg * 2 ^ i) (maxDelayMs cfg)"
    using server_error_delay [of cfg i "status r"] by (simp add: tryAttempt_def ok_def)
  show "\<exists>e. tryAttempt (Responded r) = Inl e \<and>
     retryDelay cfg i e = int (retryAfterSeconds (retryAfterText (retryAfterHeader r))) * 1000"
    if "status r = 429"
  proof -
    let ?t = "retryAfterText (retryAfterHeader r)"
    have "tryAttempt (Responded r) = Inl (''Rate limited: retry after '' @ ?t @ ''s'')"
      using that by (simp add: tryAttempt_def)
    moreover have "retryDelay cfg i (''Rate limited: retry after '' @ ?t @ ''s'')
        = int (retryAfterSeconds ?t) * 1000"
      by (rule rate_limited_delay)
    ultimately show ?thesis by blast
  qed
qed

subsection \<open>The loop\<close>

lemma fetchLoop_length:
  "length (fst (snd (fetchLoop cfg fetch a le lg w))) \<le> length lg + (Suc (maxRetries cfg) - a)"
proof (induction cfg fetch a le lg w rule: fetchLoop.induct)
  case (1 cfg fetch attempt lastError lg w)
  show ?case
  proof (cases "attempt \<le> maxRetries cfg")
    case False
    then show ?thesis by (simp add: fetchLoop.simps [of cfg fetch attempt])
  next
    case True
    obtain oc w' where f: "fetch w = (oc, w')" by (cases "fetch w")
    show ?thesis
    proof (cases "tryAttempt oc")
      case (Inr r)
      with True f show ?thesis by (simp add: fetchLoop.simps [of cfg fetch attempt])
    next
      case (Inl e)
      from "1.IH" [OF True f [symmetric] Inl] True f Inl show ?thesis
        by (simp add: fetchLoop.simps [of cfg fetch attempt])
    qed
  qed
qed

lemma fetchLoop_last:
  "a \<le> maxRetries cfg \<Longrightarrow>
   fst (snd (fetchLoop cfg fetch a le lg w)) \<noteq> []
   \<and> fst (fetchLoop cfg fetch a le lg w)
       = tryAttempt (fst (last (fst (snd (fetchLoop cfg fetch a le lg w)))))
   \<and> (isl (fst (fetchLoop cfg fetch a le lg w)) \<longrightarrow>
        length (fst (snd (fetchLoop cfg fetch a le lg w))) + a = length lg + Suc (maxRetries cfg))"
proof (induction cfg fetch a le lg w rule: fetchLoop.induct)
  case (1 cfg fetch attempt lastError lg w)
  note le = \<open>attempt \<le> maxRetries cfg\<close>
  obtain oc w' where f: "fetch w = (oc, w')" by (cases "fetch w")
  show ?case
  proof (cases "tryAttempt oc")
    case (Inr r)
    with le f show ?thesis by (simp add: fetchLoop.simps [of cfg fetch attempt])
  next
    case (Inl e)
    show ?thesis
    proof (cases "attempt + 1 \<le> maxRetries cfg")
      case True
      from "1.IH" [OF le f [symmetric] Inl True] le f Inl True show ?thesis
        by (simp add: fetchLoop.simps [of cfg fetch attempt])
    next
      case False
      with le f Inl show ?thesis
        by (simp add: fetchLoop.simps [of cfg fetch attempt]
            fetchLoop.simps [of cfg fetch "Suc attempt"])
    qed
  qed
qed

lemma fetchLoop_immediate:
  "a \<le> maxRetries cfg \<Longrightarrow> fetch w = (oc, w') \<Longrightarrow> tryAttempt oc = Inr r \<Longrightarrow>
   fetchLoop cfg fetch a le lg w = (Inr r, lg @ [(oc, None)], w')"
  by (simp add: fetchLoop.simps [of cfg fetch a])

lemma fetchLoop_all_fail:
  "\<forall>v. isl (tryAttempt (fst (fetch v))) \<Longrightarrow> a \<le> Suc (maxRetries cfg) \<Longrightarrow>
   isl (fst (fetchLoop cfg fetch a le lg w))
   \<and> length (fst (snd (fetchLoop cfg fetch a le lg w))) + a = length lg + Suc (maxRetries cfg)"
proof (induction cfg fetch a le lg w rule: fetchLoop.induct)
  case (1 cfg fetch attempt lastError lg w)
  show ?case
  proof (cases "attempt \<le> maxRetries cfg")
    case False
    with "1.prems" show ?thesis by (simp add: fetchLoop.simps [of cfg fetch attempt])
  next
    case True
    obtain oc w' where f: "fetch w = (oc, w')" by (cases "fetch w")
    from "1.prems"(1) f obtain e where e: "tryAttempt oc = Inl e"
      by (metis fst_conv isl_def)
    from "1.IH" [OF True f [symmetric] e "1.prems"(1)] True f e show ?thesis
      by (simp add: fetchLoop.simps [of cfg fetch attempt])
  qed
qed

text \<open>
  The log grows at its end, and the delay recorded with an attempt is the one the
  \<^verbatim>\<open>catch\<close> block awaits: none after a returned response and none after the last
  attempt of the budget.
\<close>

lemma fetchLoop_log:
  "\<exists>ext. fst (snd (fetchLoop cfg fetch a le lg w)) = lg @ ext
     \<and> (\<forall>i<length ext. snd (ext ! i) =
          (case tryAttempt (fst (ext ! i)) of
             Inl e \<Rightarrow> if a + i < maxRetries cfg then Some (retryDelay cfg (a + i) e) else None
           | Inr r \<Rightarrow> None))"
proof (induction cfg fetch a le lg w rule: fetchLoop.induct)
  case (1 cfg fetch attempt lastError lg w)
  show ?case
  proof (cases "attempt \<le> maxRetries cfg")
    case False
    then show ?thesis by (simp add: fetchLoop.simps [of cfg fetch attempt])
  next
    case True
    obtain oc w' where f: "fetch w = (oc, w')" by (cases "fetch w")
    show ?thesis
    proof (cases "tryAttempt oc")
      case (Inr r)
      with True f show ?thesis by (simp add: fetchLoop.simps [of cfg fetch attempt])
    next
      case (Inl e)
      let ?x = "(oc, if attempt < maxRetries cfg then Some (retryDelay cfg attempt e) else None)"
      from "1.IH" [OF True f [symmetric] Inl] obtain ext where
        ext: "fst (snd (fetchLoop cfg fetch (attempt + 1) (Some e) (lg @ [?x]) w')) = (lg @ [?x]) @ ext"
        and del: "\<forall>i<length ext. snd (ext ! i) =
          (case tryAttempt (fst (ext ! i)) of
             Inl e \<Rightarrow> if attempt + 1 + i < maxRetries cfg
                      then Some (retryDelay cfg (attempt + 1 + i) e) else None
           | Inr r \<Rightarrow> None)"
        by blast
      have "fst (snd (fetchLoop cfg fetch attempt lastError lg w)) = lg @ (?x # ext)"
        using True f Inl ext by (simp add: fetchLoop.simps [of cfg fetch attempt])
      moreover have "\<forall>i<length (?x # ext). snd ((?x # ext) ! i) =
          (case tryAttempt (fst ((?x # ext) ! i)) of
             Inl e \<Rightarrow> if attempt + i < maxRetries cfg
                      then Some (retryDelay cfg (attempt + i) e) else None
           | Inr r \<Rightarrow> None)"
      proof (intro allI impI)
        fix i assume "i < length (?x # ext)"
        then show "snd ((?x # ext) ! i) =
          (case tryAttempt (fst ((?x # ext) ! i)) of
             Inl e \<Rightarrow> if attempt + i < maxRetries cfg
                      then Some (retryDelay cfg (attempt + i) e) else None
           | Inr r \<Rightarrow> None)"
          using del Inl by (cases i) (auto split: sum.splits)
      qed
      ultimately show ?thesis by blast
    qed
  qed
qed

text \<open>On a world that counts the calls of \<^verbatim>\<open>fetch\<close>, the log has one entry per call.\<close>

lemma fetchLoop_counts:
  "\<forall>v. snd (fetch v) = Suc v \<Longrightarrow>
   snd (snd (fetchLoop cfg fetch a le lg w)) + length lg
     = w + length (fst (snd (fetchLoop cfg fetch a le lg w)))"
proof (induction cfg fetch a le lg w rule: fetchLoop.induct)
  case (1 cfg fetch attempt lastError lg w)
  show ?case
  proof (cases "attempt \<le> maxRetries cfg")
    case False
    then show ?thesis by (simp add: fetchLoop.simps [of cfg fetch attempt])
  next
    case True
    obtain oc w' where f: "fetch w = (oc, w')" by (cases "fetch w")
    with "1.prems" have w': "w' = Suc w" by (metis snd_conv)
    show ?thesis
    proof (cases "tryAttempt oc")
      case (Inr r)
      with True f w' show ?thesis by (simp add: fetchLoop.simps [of cfg fetch attempt])
    next
      case (Inl e)
      from "1.IH" [OF True f [symmetric] Inl "1.prems"] True f Inl w' show ?thesis
        by (simp add: fetchLoop.simps [of cfg fetch attempt])
    qed
  qed
qed

lemma flaky_run:
  "fetchWithRetry \<lparr>maxRetries = 3, baseDelayMs = 1000, maxDelayMs = 10000\<rparr> flakyServer 0 =
     (Inr (plainResponse 200),
      [(Responded (plainResponse 500), Some 1000), (Responded (plainResponse 500), Some 2000),
       (Responded (plainResponse 200), None)], 3)"
  by (simp add: fetchWithRetry_def fetchLoop.simps flakyServer_def tryAttempt_def
      plainResponse_def ok_def retryDelay_def showNat.simps)

lemma persistent_500_run:
  "fetchWithRetry \<lparr>maxRetries = 1, baseDelayMs = 1000, maxDelayMs = 10000\<rparr> (constantServer 500) 0 =
     (Inl ''Server error: 500'',
      [(Responded (plainResponse 500), Some 1000), (Responded (plainResponse 500), None)], 2)"
  by (simp add: fetchWithRetry_def fetchLoop.simps constantServer_def tryAttempt_def
      plainResponse_def ok_def retryDelay_def showNat.simps)

text \<open>
  C4. For every configuration, request capability and world, \<open>fetchWithRetry\<close> calls
  \<^verbatim>\<open>fetch\<close> at least once and at most \<open>maxRetries + 1\<close> times (one log entry per call);
  its result is what the last attempt gave, so that when every attempt fails the error
  raised is the one of the last attempt, and an error is raised only after the whole
  budget of \<open>maxRetries + 1\<close> attempts; a server that counts the requests it receives
  has received one per log entry. With \<open>maxRetries = 3\<close> and a server that
  answers 500 twice and then 200 it makes exactly 3 attempts and returns the 200
  response; with \<open>maxRetries = 1\<close> and a server that always answers 500 it raises
  the server error after exactly 2 attempts.
\<close>

theorem fetchWithRetry_attempt_budget:
  "length (fst (snd (fetchWithRetry cfg fetch w))) \<le> maxRetries cfg + 1
   \<and> fst (snd (fetchWithRetry cfg fetch w)) \<noteq> []
   \<and> fst (fetchWithRetry cfg fetch w)
       = tryAttempt (fst (last (fst (snd (fetchWithRetry cfg fetch w)))))
   \<and> (isl (fst (fetchWithRetry cfg fetch w)) \<longrightarrow>
        length (fst (snd (fetchWithRetry cfg fetch w))) = maxRetries cfg + 1)
   \<and> ((\<forall>v. snd (server v) = Suc v) \<longrightarrow>
        snd (snd (fetchWithRetry cfg server k))
          = k + length (fst (snd (fetchWithRetry cfg server k)))
        \<and> snd (snd (fetchWithRetry cfg server k)) \<le> k + maxRetries cfg + 1)
   \<and> fetchWithRetry \<lparr>maxRetries = 3, baseDelayMs = 1000, maxDelayMs = 10000\<rparr> flakyServer 0 =
       (Inr (plainResponse 200),
        [(Responded (plainResponse 500), Some 1000), (Responded (plainResponse 500), Some 2000),
         (Responded (plainResponse 200), None)], 3)
   \<and> fetchWithRetry \<lparr>maxRetries = 1, baseDelayMs = 1000, maxDelayMs = 10000\<rparr> (constantServer 500) 0 =
       (Inl ''Server error: 500'',
        [(Responded (plainResponse 500), Some 1000), (Responded (plainResponse 500), None)], 2)"
  using fetchLoop_length [of cfg fetch 0 None "[]" w] fetchLoop_last [of 0 cfg fetch None "[]" w]
    fetchLoop_length [of cfg server 0 None "[]" k]
    fetchLoop_counts [of server cfg 0 None "[]" k]
    flaky_run persistent_500_run
  by (simp add: fetchWithRetry_def)

theorem fetchWithRetry_attempt_budget_witness:
  "isl (fst (fetchWithRetry \<lparr>maxRetries = 1, baseDelayMs = 1000, maxDelayMs = 10000\<rparr>
          (constantServer 500) 0))
   \<and> length (fst (snd (fetchWithRetry \<lparr>maxRetries = 1, baseDelayMs = 1000, maxDelayMs = 10000\<rparr>
          (constantServer 500) 0))) = 2"
proof -
  let ?run = "fetchWithRetry \<lparr>maxRetries = 1, baseDelayMs = 1000, maxDelayMs = 10000\<rparr>
    (constantServer 500) (0::nat)"
  note budget = fetchWithRetry_attempt_budget
    [of "\<lparr>maxRetries = 1, baseDelayMs = 1000, maxDelayMs = 10000\<rparr>" "constantServer 500" 0]
  from budget have run: "?run = (Inl ''Server error: 500'',
      [(Responded (plainResponse 500), Some 1000), (Responded (plainResponse 500), None)], 2)"
    by blast
  have failed: "isl (fst ?run)" unfolding run by simp
  moreover from budget failed have "length (fst (snd ?run)) = maxRetries
      \<lparr>maxRetries = 1, baseDelayMs = 1000, maxDelayMs = 10000\<rparr> + 1"
    by blast
  ultimately show ?thesis by simp
qed

text \<open>
  C3, as stated, fails: a server that always answers 404, asked with the default
  budget of \<open>maxRetries = 3\<close>, receives exactly one request, and the 404 response is
  returned to the caller with no retry and no delay.
\<close>

theorem not_found_is_not_retried_counterexample:
  "fetchWithRetry \<lparr>maxRetries = 3, baseDelayMs = 1000, maxDelayMs = 10000\<rparr> (constantServer 404) 0 =
     (Inr (plainResponse 404), [(Responded (plainResponse 404), None)], 1)"
  by (simp add: fetchWithRetry_def fetchLoop.simps constantServer_def tryAttempt_def
      plainResponse_def ok_def)

lemma rate_limited_run:
  "fetchWithRetry \<lparr>maxRetries = 1, baseDelayMs = 1000, maxDelayMs = 10000\<rparr>
     (rateLimitingServer ''1e+24'') 0 =
     (Inl ''Rate limited: retry after 1e+24s'',
      [(Responded \<lparr>status = 429, retryAfterHeader = Printed ''1e+24'', body = ()\<rparr>, Some 1000),
       (Responded \<lparr>status = 429, retryAfterHeader = Printed ''1e+24'', body = ()\<rparr>, None)], 2)"
  by (simp add: fetchWithRetry_def fetchLoop.simps rateLimitingServer_def tryAttempt_def
      retryAfterText_def retryDelay_def retryAfterSeconds_def firstDigits_def isDigit_def
      parseDigits_def digitValue_def)

text \<open>
  C3, amended. A response whose status is neither 429 nor 500 or above (for example a
  404 or a 400, like every success) is returned to the caller at once: one attempt, no
  retry. Transport failures, 429 responses and responses with status 500 or above are
  the failures: when every call of \<^verbatim>\<open>fetch\<close> gives one of them, the whole budget of
  \<open>maxRetries + 1\<close> attempts is used and an error is raised. The kinds of failure
  differ only in the delay awaited before the next attempt, stated here for a base
  delay that is not negative, at most 1024 retries and delays of at most \<open>2^53\<close> ms,
  where the doubles of the source are exact. After a 429, and after a transport
  failure whose message contains \<^verbatim>\<open>Rate limited\<close>, the delay is 1000 ms times the
  seconds read from the first run of digits of the printed \<^verbatim>\<open>Retry-After\<close> number (of
  the message), 60 when there is no digit: \<open>n\<close> seconds for a header that parses to
  the integer \<open>n\<close> or \<open>- n\<close> and prints as its digits, 60 for an absent header and for
  \<^verbatim>\<open>NaN\<close>, 1 for a header that prints as \<^verbatim>\<open>1e+24\<close>. After a status of 500 or above,
  and after any other transport failure, the delay is
  \<open>min (baseDelayMs * 2 ^ attempt) maxDelayMs\<close>. No delay follows the last attempt.
\<close>

theorem fetchWithRetry_retries_failures_only:
  "(fetch w = (Responded r, w') \<and> status r \<noteq> 429 \<and> status r < 500 \<longrightarrow>
      fetchWithRetry cfg fetch w = (Inr r, [(Responded r, None)], w'))
   \<and> ((\<forall>v. case fst (fetch v) of
              Threw m \<Rightarrow> True
            | Responded r \<Rightarrow> status r = 429 \<or> status r \<ge> 500) \<longrightarrow>
        isl (fst (fetchWithRetry cfg fetch w))
        \<and> length (fst (snd (fetchWithRetry cfg fetch w))) = maxRetries cfg + 1)
   \<and> (0 \<le> baseDelayMs cfg \<and> maxRetries cfg \<le> 1024 \<longrightarrow>
        (\<forall>i < length (fst (snd (fetchWithRetry cfg fetch w))).
           case fst (fst (snd (fetchWithRetry cfg fetch w)) ! i) of
             Threw m \<Rightarrow>
               if i < maxRetries cfg then
                 (if includes_str m ''Rate limited''
                  then int (retryAfterSeconds m) * 1000 \<le> 9007199254740992 \<longrightarrow>
                         snd (fst (snd (fetchWithRetry cfg fetch w)) ! i)
                           = Some (int (retryAfterSeconds m) * 1000)
                  else snd (fst (snd (fetchWithRetry cfg fetch w)) ! i)
                         = Some (min (baseDelayMs cfg * 2 ^ i) (maxDelayMs cfg)))
               else snd (fst (snd (fetchWithRetry cfg fetch w)) ! i) = None
           | Responded r \<Rightarrow>
               if status r = 429 then
                 (if i < maxRetries cfg
                  then int (retryAfterSeconds (retryAfterText (retryAfterHeader r))) * 1000
                           \<le> 9007199254740992 \<longrightarrow>
                         snd (fst (snd (fetchWithRetry cfg fetch w)) ! i)
                           = Some (int (retryAfterSeconds (retryAfterText (retryAfterHeader r)))
                                   * 1000)
                  else snd (fst (snd (fetchWithRetry cfg fetch w)) ! i) = None)
               else if status r \<ge> 500 then
                 (if i < maxRetries cfg
                  then snd (fst (snd (fetchWithRetry cfg fetch w)) ! i)
                         = Some (min (baseDelayMs cfg * 2 ^ i) (maxDelayMs cfg))
                  else snd (fst (snd (fetchWithRetry cfg fetch w)) ! i) = None)
               else snd (fst (snd (fetchWithRetry cfg fetch w)) ! i) = None))
   \<and> retryAfterText Absent = ''60'' \<and> retryAfterSeconds ''60'' = 60
   \<and> retryAfterText (Printed t) = t
   \<and> retryAfterSeconds (showNat n) = n \<and> retryAfterSeconds (CHR ''-'' # showNat n) = n
   \<and> retryAfterSeconds ''NaN'' = 60 \<and> retryAfterSeconds ''1e+24'' = 1"
proof (intro conjI impI allI)
  assume "fetch w = (Responded r, w') \<and> status r \<noteq> 429 \<and> status r < 500"
  then show "fetchWithRetry cfg fetch w = (Inr r, [(Responded r, None)], w')"
    using fetchLoop_immediate [of 0 cfg fetch w "Responded r" w' r None "[]"]
    by (simp add: fetchWithRetry_def tryAttempt_cases(4))
next
  assume all: "\<forall>v. case fst (fetch v) of
      Threw m \<Rightarrow> True | Responded r \<Rightarrow> status r = 429 \<or> status r \<ge> 500"
  have "\<forall>v. isl (tryAttempt (fst (fetch v)))"
  proof
    fix v
    from all have "case fst (fetch v) of
      Threw m \<Rightarrow> True | Responded r \<Rightarrow> status r = 429 \<or> status r \<ge> 500" ..
    then show "isl (tryAttempt (fst (fetch v)))"
      by (cases "fst (fetch v)") (auto simp: tryAttempt_def ok_def)
  qed
  from fetchLoop_all_fail [OF this, of 0 cfg None "[]" w]
  show "isl (fst (fetchWithRetry cfg fetch w))"
    and "length (fst (snd (fetchWithRetry cfg fetch w))) = maxRetries cfg + 1"
    by (simp_all add: fetchWithRetry_def)
next
  fix i
  assume i: "i < length (fst (snd (fetchWithRetry cfg fetch w)))"
  let ?lg = "fst (snd (fetchWithRetry cfg fetch w))"
  from fetchLoop_log [of cfg fetch 0 None "[]" w] obtain ext where
    ext: "?lg = ext"
    and del: "\<forall>i<length ext. snd (ext ! i) =
      (case tryAttempt (fst (ext ! i)) of
         Inl e \<Rightarrow> if 0 + i < maxRetries cfg then Some (retryDelay cfg (0 + i) e) else None
       | Inr r \<Rightarrow> None)"
    by (auto simp: fetchWithRetry_def)
  from del i have entry: "snd (?lg ! i) =
      (case tryAttempt (fst (?lg ! i)) of
         Inl e \<Rightarrow> if i < maxRetries cfg then Some (retryDelay cfg i e) else None
       | Inr r \<Rightarrow> None)"
    unfolding ext by (auto split: sum.splits)
  show "case fst (?lg ! i) of
      Threw m \<Rightarrow>
        if i < maxRetries cfg then
          (if includes_str m ''Rate limited''
           then int (retryAfterSeconds m) * 1000 \<le> 9007199254740992 \<longrightarrow>
                  snd (?lg ! i) = Some (int (retryAfterSeconds m) * 1000)
           else snd (?lg ! i) = Some (min (baseDelayMs cfg * 2 ^ i) (maxDelayMs cfg)))
        else snd (?lg ! i) = None
    | Responded r \<Rightarrow>
        if status r = 429 then
          (if i < maxRetries cfg
           then int (retryAfterSeconds (retryAfterText (retryAfterHeader r))) * 1000
                    \<le> 9007199254740992 \<longrightarrow>
                  snd (?lg ! i)
                    = Some (int (retryAfterSeconds (retryAfterText (retryAfterHeader r))) * 1000)
           else snd (?lg ! i) = None)
        else if status r \<ge> 500 then
          (if i < maxRetries cfg
           then snd (?lg ! i) = Some (min (baseDelayMs cfg * 2 ^ i) (maxDelayMs cfg))
           else snd (?lg ! i) = None)
        else snd (?lg ! i) = None"
  proof (cases "fst (?lg ! i)")
    case (Threw m)
    with entry show ?thesis by (simp add: tryAttempt_cases(1) retryDelay_def)
  next
    case (Responded r)
    consider "status r = 429" | "status r \<noteq> 429" "status r \<ge> 500"
      | "status r \<noteq> 429" "status r < 500"
      by linarith
    then show ?thesis
    proof cases
      case 1
      from tryAttempt_cases(2) [OF 1, of cfg i] entry Responded 1 show ?thesis by auto
    next
      case 2
      from tryAttempt_cases(3) [OF 2, of cfg i] entry Responded 2 show ?thesis by auto
    next
      case 3
      from tryAttempt_cases(4) [OF 3] entry Responded 3 show ?thesis by auto
    qed
  qed
next
  show "retryAfterText Absent = ''60''" and "retryAfterText (Printed t) = t"
    by (simp_all add: retryAfterText_def)
  show "retryAfterSeconds ''60'' = 60" and "retryAfterSeconds ''NaN'' = 60"
    and "retryAfterSeconds ''1e+24'' = 1"
    by (rule retryAfterSeconds_prints)+
  show "retryAfterSeconds (showNat n) = n" and "retryAfterSeconds (CHR ''-'' # showNat n) = n"
    by (rule retryAfterSeconds_showNat)+
qed

theorem fetchWithRetry_retries_failures_only_witness:
  "fetchWithRetry \<lparr>maxRetries = 3, baseDelayMs = 1000, maxDelayMs = 10000\<rparr> (constantServer 400) 7 =
     (Inr (plainResponse 400), [(Responded (plainResponse 400), None)], 8)
   \<and> isl (fst (fetchWithRetry \<lparr>maxRetries = 3, baseDelayMs = 1000, maxDelayMs = 10000\<rparr>
        (constantServer 503) 0))
   \<and> length (fst (snd (fetchWithRetry \<lparr>maxRetries = 3, baseDelayMs = 1000, maxDelayMs = 10000\<rparr>
        (constantServer 503) 0))) = 4
   \<and> snd (fst (snd (fetchWithRetry \<lparr>maxRetries = 1, baseDelayMs = 1000, maxDelayMs = 10000\<rparr>
        (rateLimitingServer ''1e+24'') 0)) ! 0) = Some 1000"
proof -
  let ?cfg = "\<lparr>maxRetries = 3, baseDelayMs = 1000, maxDelayMs = 10000\<rparr>"
  let ?one = "\<lparr>maxRetries = 1, baseDelayMs = 1000, maxDelayMs = 10000\<rparr>"
  let ?r = "\<lparr>status = 429, retryAfterHeader = Printed ''1e+24'', body = ()\<rparr>"
  let ?lg = "fst (snd (fetchWithRetry ?one (rateLimitingServer ''1e+24'') 0))"
  have a: "constantServer 400 7 = (Responded (plainResponse 400), 8)
      \<and> status (plainResponse 400) \<noteq> 429 \<and> status (plainResponse 400) < 500"
    by (simp add: constantServer_def plainResponse_def)
  have b: "\<forall>v. case fst (constantServer 503 v) of
      Threw m \<Rightarrow> True | Responded r \<Rightarrow> status r = 429 \<or> status r \<ge> 500"
    by (simp add: constantServer_def plainResponse_def)
  from fetchWithRetry_retries_failures_only
      [of "constantServer 400" 7 "plainResponse 400" 8 ?cfg] a
  have first: "fetchWithRetry ?cfg (constantServer 400) 7 =
      (Inr (plainResponse 400), [(Responded (plainResponse 400), None)], 8)"
    by blast
  from fetchWithRetry_retries_failures_only
      [of "constantServer 503" 0 "plainResponse 503" 1 ?cfg] b
  have second: "isl (fst (fetchWithRetry ?cfg (constantServer 503) 0))
      \<and> length (fst (snd (fetchWithRetry ?cfg (constantServer 503) 0))) = maxRetries ?cfg + 1"
    by blast
  have safe: "0 \<le> baseDelayMs ?one \<and> maxRetries ?one \<le> 1024" by simp
  have at: "0 < length ?lg" and oc: "fst (?lg ! 0) = Responded ?r"
    unfolding rate_limited_run by simp_all
  from fetchWithRetry_retries_failures_only
      [of "rateLimitingServer ''1e+24''" 0 ?r 1 ?one] safe at
  have "case fst (?lg ! 0) of
      Threw m \<Rightarrow>
        if 0 < maxRetries ?one then
          (if includes_str m ''Rate limited''
           then int (retryAfterSeconds m) * 1000 \<le> 9007199254740992 \<longrightarrow>
                  snd (?lg ! 0) = Some (int (retryAfterSeconds m) * 1000)
           else snd (?lg ! 0) = Some (min (baseDelayMs ?one * 2 ^ 0) (maxDelayMs ?one)))
        else snd (?lg ! 0) = None
    | Responded r \<Rightarrow>
        if status r = 429 then
          (if 0 < maxRetries ?one
           then int (retryAfterSeconds (retryAfterText (retryAfterHeader r))) * 1000
                    \<le> 9007199254740992 \<longrightarrow>
                  snd (?lg ! 0)
                    = Some (int (retryAfterSeconds (retryAfterText (retryAfterHeader r))) * 1000)
           else snd (?lg ! 0) = None)
        else if status r \<ge> 500 then
          (if 0 < maxRetries ?one
           then snd (?lg ! 0) = Some (min (baseDelayMs ?one * 2 ^ 0) (maxDelayMs ?one))
           else snd (?lg ! 0) = None)
        else snd (?lg ! 0) = None"
    by blast
  then have third: "snd (?lg ! 0) = Some 1000"
    unfolding oc by (simp add: retryAfterText_def retryAfterSeconds_prints)
  from first second third show ?thesis by simp
qed

section \<open>Properties of the liquidity depth search\<close>

lemma mid_nonneg:
  "0 \<le> low \<Longrightarrow> low \<le> high \<Longrightarrow> bigint_div (low + high) 2 = (low + high) div 2"
  by (simp add: bigint_div_def sgn_if)

text \<open>One iteration, for bounds that are not negative: the midpoint is the floor average.\<close>

lemma searchLoop_step:
  assumes "0 \<le> low" "low \<le> high"
  shows "searchLoop q r b (Suc n) low high =
     (if (low + high) div 2 = low \<or> (low + high) div 2 = high then low
      else if (case q r ((low + high) div 2) of
                 Some out \<Rightarrow> calculateSlippage r ((low + high) div 2) out \<le> b | None \<Rightarrow> False)
           then searchLoop q r b n ((low + high) div 2) high
           else searchLoop q r b n low ((low + high) div 2))"
  using assms by (simp add: mid_nonneg Let_def split: option.split)

declare searchLoop.simps(2) [simp del]

text \<open>The result stays between the bounds, and below the upper one when they differ.\<close>

lemma searchLoop_bounds:
  "0 \<le> low \<Longrightarrow> low \<le> high \<Longrightarrow>
   low \<le> searchLoop q r b n low high \<and> searchLoop q r b n low high \<le> high
   \<and> (low < high \<longrightarrow> searchLoop q r b n low high < high)"
proof (induction n arbitrary: low high)
  case 0
  then show ?case by simp
next
  case (Suc n)
  let ?mid = "(low + high) div 2"
  show ?case
  proof (cases "?mid = low \<or> ?mid = high")
    case True
    with Suc.prems show ?thesis by (simp add: searchLoop_step)
  next
    case False
    with Suc.prems have m: "low < ?mid" "?mid < high" "0 \<le> ?mid" by linarith+
    from Suc.IH [of ?mid high] Suc.IH [of low ?mid] m Suc.prems False
    show ?thesis by (auto simp: searchLoop_step)
  qed
qed

text \<open>
  Two searches with budgets \<open>A \<le> B\<close> walk the same midpoints until a probe is within
  \<open>B\<close> and not within \<open>A\<close>; from there on the first stays below that midpoint and the
  second at or above it.
\<close>

lemma searchLoop_mono:
  "A \<le> B \<Longrightarrow> 0 \<le> low \<Longrightarrow> low \<le> high \<Longrightarrow>
   searchLoop q r A n low high \<le> searchLoop q r B n low high"
proof (induction n arbitrary: low high)
  case 0
  then show ?case by simp
next
  case (Suc n)
  let ?mid = "(low + high) div 2"
  show ?case
  proof (cases "?mid = low \<or> ?mid = high")
    case True
    with Suc.prems show ?thesis by (simp add: searchLoop_step)
  next
    case False
    with Suc.prems have m: "low < ?mid" "?mid < high" "0 \<le> ?mid" by linarith+
    let ?within = "\<lambda>b. case q r ?mid of
        Some out \<Rightarrow> calculateSlippage r ?mid out \<le> b | None \<Rightarrow> False"
    have imp: "?within A \<Longrightarrow> ?within B"
      using Suc.prems(1) by (auto split: option.splits)
    have stepA: "searchLoop q r A (Suc n) low high =
        (if ?within A then searchLoop q r A n ?mid high else searchLoop q r A n low ?mid)"
      using False Suc.prems by (simp add: searchLoop_step)
    have stepB: "searchLoop q r B (Suc n) low high =
        (if ?within B then searchLoop q r B n ?mid high else searchLoop q r B n low ?mid)"
      using False Suc.prems by (simp add: searchLoop_step)
    show ?thesis
    proof (cases "?within A")
      case True
      with imp have "?within B" by blast
      with True stepA stepB Suc.IH [of ?mid high] Suc.prems(1) m show ?thesis by simp
    next
      case notA: False
      show ?thesis
      proof (cases "?within B")
        case False
        with notA stepA stepB Suc.IH [of low ?mid] Suc.prems m show ?thesis by simp
      next
        case True
        from searchLoop_bounds [of low ?mid q r A n] Suc.prems m
        have "searchLoop q r A n low ?mid < ?mid" by simp
        moreover from searchLoop_bounds [of ?mid high q r B n] m
        have "?mid \<le> searchLoop q r B n ?mid high" by simp
        ultimately show ?thesis using notA True stepA stepB by simp
      qed
    qed
  qed
qed

lemma ideal_slippage:
  "calculateSlippage r a
     (bigint_div (a * 10 ^ decimals (destination r)) (10 ^ decimals (source r))) = 0"
  by (simp add: calculateSlippage_def Let_def bigint_div_def)

text \<open>Against the ideal quote the search does not depend on the route or on the budget,
  as long as the budget is not negative; with a negative budget no probe is feasible.\<close>

lemma searchLoop_ideal:
  "0 \<le> b \<Longrightarrow> 0 \<le> b' \<Longrightarrow>
   searchLoop idealQuote r b n low high = searchLoop idealQuote r' b' n low high"
proof (induction n arbitrary: low high)
  case 0
  then show ?case by simp
next
  case (Suc n)
  then show ?case by (simp add: searchLoop.simps(2) Let_def idealQuote_def ideal_slippage)
qed

lemma searchLoop_ideal_negative:
  "b < 0 \<Longrightarrow> searchLoop idealQuote r b n low high = low"
proof (induction n arbitrary: low high)
  case 0
  then show ?case by simp
next
  case (Suc n)
  then show ?case by (simp add: searchLoop.simps(2) Let_def idealQuote_def ideal_slippage)
qed

lemma ideal_run:
  "searchLoop idealQuote ethToPolygon 0 25 0 UPPER_BOUND = UPPER_BOUND - 298023223877"
  by code_simp

text \<open>
  C5, as stated, fails: on the USDC route from Ethereum to Polygon with the budget of
  50 bps, the search against the ideal quote does not return \<open>UPPER_BOUND\<close>.
\<close>

theorem ideal_quote_counterexample:
  "findMaxAmountForSlippage idealQuote ethToPolygon 50 \<noteq> UPPER_BOUND"
  by code_simp

text \<open>
  C5, amended. Against the quote with zero slippage everywhere the search returns, for
  every route and every budget that is not negative, the 25th midpoint
  \<open>9999999701976776123 = UPPER_BOUND - 298023223877\<close> (the upper bound less
  \<open>10^19 / 2^25\<close> rounded up), and 0 for a negative budget. Whatever the quote function,
  the result is at least 0 and strictly below \<open>UPPER_BOUND\<close>.
\<close>

theorem ideal_quote_search_result:
  "(0 \<le> slippageBps \<longrightarrow>
      findMaxAmountForSlippage idealQuote route slippageBps = 9999999701976776123
      \<and> findMaxAmountForSlippage idealQuote route slippageBps = UPPER_BOUND - 298023223877)
   \<and> (slippageBps < 0 \<longrightarrow> findMaxAmountForSlippage idealQuote route slippageBps = 0)
   \<and> 0 \<le> findMaxAmountForSlippage quote route slippageBps
   \<and> findMaxAmountForSlippage quote route slippageBps < UPPER_BOUND"
proof (intro conjI impI)
  assume nonneg: "0 \<le> slippageBps"
  from searchLoop_ideal [OF nonneg, of 0 route 25 0 UPPER_BOUND ethToPolygon] ideal_run
  show eq: "findMaxAmountForSlippage idealQuote route slippageBps = UPPER_BOUND - 298023223877"
    by (simp add: findMaxAmountForSlippage_def)
  then show "findMaxAmountForSlippage idealQuote route slippageBps = 9999999701976776123"
    by (simp add: UPPER_BOUND_def)
next
  assume "slippageBps < 0"
  then show "findMaxAmountForSlippage idealQuote route slippageBps = 0"
    by (simp add: findMaxAmountForSlippage_def searchLoop_ideal_negative)
next
  from searchLoop_bounds [of 0 UPPER_BOUND quote route slippageBps 25]
  show "0 \<le> findMaxAmountForSlippage quote route slippageBps"
    and "findMaxAmountForSlippage quote route slippageBps < UPPER_BOUND"
    by (simp_all add: findMaxAmountForSlippage_def UPPER_BOUND_def)
qed

theorem ideal_quote_search_result_witness:
  "findMaxAmountForSlippage idealQuote ethToPolygon 50 = 9999999701976776123
   \<and> findMaxAmountForSlippage idealQuote ethToPolygon (- 1) = 0"
  using ideal_quote_search_result [of 50 ethToPolygon idealQuote]
    ideal_quote_search_result [of "- 1" ethToPolygon idealQuote]
  by simp

text \<open>
  C8. For every route, every quote function (a function of the route and the probed
  amount, failing probes included) and every two budgets \<open>A < B\<close>, the search with
  budget \<open>A\<close> returns at most what the search with budget \<open>B\<close> returns.
\<close>

theorem findMaxAmountForSlippage_monotone:
  "A < B \<Longrightarrow>
   findMaxAmountForSlippage quote route A \<le> findMaxAmountForSlippage quote route B"
  using searchLoop_mono [of A B 0 UPPER_BOUND quote route 25]
  by (simp add: findMaxAmountForSlippage_def UPPER_BOUND_def)

lemma pool_runs:
  "findMaxAmountForSlippage poolQuote ethToPolygon 50 = 5099999904632568359"
  "findMaxAmountForSlippage poolQuote ethToPolygon 100 = 7999999821186065673"
  by code_simp+

theorem findMaxAmountForSlippage_monotone_witness:
  "findMaxAmountForSlippage poolQuote ethToPolygon 50
     \<le> findMaxAmountForSlippage poolQuote ethToPolygon 100
   \<and> findMaxAmountForSlippage poolQuote ethToPolygon 50 = 5099999904632568359
   \<and> findMaxAmountForSlippage poolQuote ethToPolygon 100 = 7999999821186065673"
proof -
  have "(50::int) < 100" by simp
  from findMaxAmountForSlippage_monotone [OF this, of poolQuote ethToPolygon] pool_runs
  show ?thesis by blast
qed


section \<open>Properties of the rates with fallback\<close>

text \<open>A response that \<^verbatim>\<open>fetchWithRetry\<close> returns is one that \<^verbatim>\<open>fetch\<close> gave.\<close>

lemma fetchLoop_returns_fetched:
  "fst (fetchLoop cfg fetch a le lg w) = Inr r \<Longrightarrow> \<exists>v. fst (fetch v) = Responded r"
proof (induction cfg fetch a le lg w rule: fetchLoop.induct)
  case (1 cfg fetch attempt lastError lg w)
  show ?case
  proof (cases "attempt \<le> maxRetries cfg")
    case False
    with "1.prems" show ?thesis by (simp add: fetchLoop.simps [of cfg fetch attempt])
  next
    case True
    obtain oc w' where f: "fetch w = (oc, w')" by (cases "fetch w")
    show ?thesis
    proof (cases "tryAttempt oc")
      case (Inr r')
      with True f "1.prems" have "r' = r" by (simp add: fetchLoop.simps [of cfg fetch attempt])
      with Inr have "oc = Responded r"
        by (cases oc) (auto simp: tryAttempt_def Let_def split: if_splits)
      with f have "fst (fetch w) = Responded r" by simp
      then show ?thesis ..
    next
      case (Inl e)
      with True f "1.prems" "1.IH" [OF True f [symmetric] Inl] show ?thesis
        by (simp add: fetchLoop.simps [of cfg fetch attempt])
    qed
  qed
qed

lemma fetchQuoteData_unavailable:
  assumes "\<forall>endpoint v. case fst (net endpoint route nt v) of
             Threw m \<Rightarrow> True | Responded resp \<Rightarrow> \<not> ok resp"
  shows "fst (fetchQuoteData cfg net route nt eps w) = None"
proof (induction eps arbitrary: w)
  case Nil
  show ?case by simp
next
  case (Cons ep eps)
  let ?run = "fetchWithRetry (cfg\<lparr>maxRetries := 1\<rparr>) (net ep route nt) w"
  obtain res lg w' where run: "?run = (res, lg, w')" by (cases ?run)
  show ?case
  proof (cases res)
    case (Inl e)
    with run Cons.IH [of w'] show ?thesis by simp
  next
    case (Inr resp)
    with run have "fst (fetchLoop (cfg\<lparr>maxRetries := 1\<rparr>) (net ep route nt) 0 None [] w) = Inr resp"
      by (simp add: fetchWithRetry_def)
    then obtain v where "fst (net ep route nt v) = Responded resp"
      using fetchLoop_returns_fetched [where fetch = "net ep route nt" and r = resp] by blast
    with assms have "\<not> ok resp" by (metis (mono_tags, lifting) outcome.simps(6))
    with Inr run Cons.IH [of w'] show ?thesis by simp
  qed
qed

lemma fallback_amount:
  "0 \<le> n \<Longrightarrow> bigint_div (n * (10000 - 25)) 10000 = n * 9975 div 10000"
  by (simp add: bigint_div_def sgn_if)

lemma getSingleRate_unavailable:
  assumes "\<forall>endpoint v. case fst (net endpoint route (Amount n) v) of
             Threw m \<Rightarrow> True | Responded resp \<Rightarrow> \<not> ok resp"
  shows "fst (getSingleRate cfg baseUrl net route (Amount n) w) = createFallbackRate route (Amount n)"
proof -
  obtain q w' where q: "fetchQuoteData cfg net route (Amount n) (quoteEndpoints baseUrl) w = (q, w')"
    by (cases "fetchQuoteData cfg net route (Amount n) (quoteEndpoints baseUrl) w")
  with fetchQuoteData_unavailable [where net = net and route = route and nt = "Amount n"
      and cfg = cfg and eps = "quoteEndpoints baseUrl" and w = w, OF assms]
  have "q = None" by simp
  with q show ?thesis
    by (simp add: getSingleRate_def calculateWormholeQuote_def createFallbackRate_def
        rateFromQuote_def asQuoteData_def truthyNumber_def Let_def)
qed

lemma createFallbackRate_amount:
  "createFallbackRate route (Amount n) =
     Inr \<lparr>source = source route, destination = destination route, amountIn = Amount n,
          amountOut = bigint_div (n * 9975) 10000,
          effectiveRate = calculateEffectiveRate n (bigint_div (n * 9975) 10000)
                            (decimals (source route)) (decimals (destination route)),
          totalFeesUsd = calculateFeeUsd n (source route)\<rparr>"
  by (simp add: createFallbackRate_def calculateWormholeQuote_def Let_def)

lemma rateFromQuote_fields:
  "rateFromQuote route nt d = Inr rate \<Longrightarrow>
   source rate = source route \<and> destination rate = destination route \<and> amountIn rate = nt"
  by (auto simp: rateFromQuote_def Let_def split: notional.splits js_field.splits sum.splits)

lemma rateOrFallback_amount:
  "\<exists>rate. fst (rateOrFallback cfg baseUrl net route (Amount n) w) = Inr rate
     \<and> source rate = source route \<and> destination rate = destination route
     \<and> amountIn rate = Amount n"
proof -
  obtain res w' where g: "getSingleRate cfg baseUrl net route (Amount n) w = (res, w')"
    by (cases "getSingleRate cfg baseUrl net route (Amount n) w")
  show ?thesis
  proof (cases res)
    case (Inl e)
    with g show ?thesis by (simp add: rateOrFallback_def createFallbackRate_amount)
  next
    case (Inr rate)
    with g have "rateFromQuote route (Amount n) d = Inr rate" if
      "fst (fetchQuoteData cfg net route (Amount n) (quoteEndpoints baseUrl) w) = Some d" for d
      using that by (auto simp: getSingleRate_def split: prod.splits option.splits)
    from g Inr have "\<exists>d. rateFromQuote route (Amount n) d = Inr rate"
      by (auto simp: getSingleRate_def calculateWormholeQuote_def Let_def
          split: prod.splits option.splits sum.splits)
    then have "source rate = source route \<and> destination rate = destination route
        \<and> amountIn rate = Amount n"
      using rateFromQuote_fields by blast
    with g Inr show ?thesis by (simp add: rateOrFallback_def)
  qed
qed

lemma rateOrFallback_unavailable:
  assumes "\<forall>endpoint v. case fst (net endpoint route (Amount n) v) of
             Threw m \<Rightarrow> True | Responded resp \<Rightarrow> \<not> ok resp"
  shows "fst (rateOrFallback cfg baseUrl net route (Amount n) w) = createFallbackRate route (Amount n)"
proof -
  obtain res w' where g: "getSingleRate cfg baseUrl net route (Amount n) w = (res, w')"
    by (cases "getSingleRate cfg baseUrl net route (Amount n) w")
  with getSingleRate_unavailable [where net = net and route = route and n = n and cfg = cfg
      and baseUrl = baseUrl and w = w, OF assms]
  have "res = createFallbackRate route (Amount n)" by simp
  with g show ?thesis by (simp add: rateOrFallback_def createFallbackRate_amount)
qed

lemma fetchQuoteData_live:
  assumes "\<forall>v. \<exists>resp. fst (net (baseUrl @ ''/v1/quote'') route nt v) = Responded resp
             \<and> status resp = 200 \<and> body resp = Doc d"
  shows "fst (fetchQuoteData cfg net route nt (quoteEndpoints baseUrl) w) = Some d"
proof -
  let ?fetch = "net (baseUrl @ ''/v1/quote'') route nt"
  from assms obtain resp where r: "fst (?fetch w) = Responded resp" "status resp = 200"
    "body resp = Doc d" by blast
  obtain w' where f: "?fetch w = (Responded resp, w')" using r(1) by (cases "?fetch w") simp
  have t: "tryAttempt (Responded resp) = Inr resp" using r(2) by (simp add: tryAttempt_def)
  have "fetchWithRetry (cfg\<lparr>maxRetries := 1\<rparr>) ?fetch w = (Inr resp, [(Responded resp, None)], w')"
    unfolding fetchWithRetry_def
    using fetchLoop_immediate [of 0 "cfg\<lparr>maxRetries := 1\<rparr>" ?fetch w "Responded resp" w' resp None "[]"] f t
    by simp
  then show ?thesis using r by (simp add: quoteEndpoints_def ok_def)
qed

lemma rateOrFallback_live:
  assumes "\<forall>v. \<exists>resp. fst (net (baseUrl @ ''/v1/quote'') route nt v) = Responded resp
             \<and> status resp = 200 \<and> body resp = Doc d"
  shows "fst (rateOrFallback cfg baseUrl net route nt w) =
     (case rateFromQuote route nt d of Inr rate \<Rightarrow> Inr rate | Inl e \<Rightarrow> createFallbackRate route nt)"
proof -
  obtain q w' where q: "fetchQuoteData cfg net route nt (quoteEndpoints baseUrl) w = (q, w')"
    by (cases "fetchQuoteData cfg net route nt (quoteEndpoints baseUrl) w")
  with fetchQuoteData_live [where net = net and baseUrl = baseUrl and route = route and nt = nt
      and d = d and cfg = cfg and w = w, OF assms]
  have "q = Some d" by simp
  with q show ?thesis
    by (simp add: rateOrFallback_def getSingleRate_def split: sum.splits)
qed

lemma ratesOfRoute_ok:
  assumes "\<forall>nt \<in> set nts. \<exists>n. nt = Amount n"
  shows "\<exists>new w'. ratesOfRoute cfg baseUrl net route nts rates w = (Inr (rates @ new), w')
     \<and> list_all2 (\<lambda>nt rate. \<exists>v. fst (rateOrFallback cfg baseUrl net route nt v) = Inr rate) nts new"
  using assms
proof (induction nts arbitrary: rates w)
  case Nil
  show ?case by simp
next
  case (Cons nt nts)
  from Cons.prems obtain n where n: "nt = Amount n" by auto
  obtain res w1 where r: "rateOrFallback cfg baseUrl net route nt w = (res, w1)"
    by (cases "rateOrFallback cfg baseUrl net route nt w")
  from rateOrFallback_amount [of cfg baseUrl net route n w] r n obtain rate where
    rate: "res = Inr rate" by auto
  from Cons.IH [of "rates @ [rate]" w1] Cons.prems obtain new w' where
    rest: "ratesOfRoute cfg baseUrl net route nts (rates @ [rate]) w1 = (Inr ((rates @ [rate]) @ new), w')"
    and all: "list_all2 (\<lambda>nt rate. \<exists>v. fst (rateOrFallback cfg baseUrl net route nt v) = Inr rate) nts new"
    by auto
  have "ratesOfRoute cfg baseUrl net route (nt # nts) rates w = (Inr (rates @ (rate # new)), w')"
    using r rate rest by simp
  moreover have "list_all2 (\<lambda>nt rate. \<exists>v. fst (rateOrFallback cfg baseUrl net route nt v) = Inr rate)
      (nt # nts) (rate # new)"
    using all r rate by (auto intro: exI [of _ w])
  ultimately show ?case by blast
qed

lemma ratesOfRoutes_ok:
  assumes "\<forall>nt \<in> set nts. \<exists>n. nt = Amount n"
  shows "\<exists>new w'. ratesOfRoutes cfg baseUrl net routes nts rates w = (Inr (rates @ new), w')
     \<and> list_all2 (\<lambda>item rate. \<exists>v. fst (rateOrFallback cfg baseUrl net (fst item) (snd item) v) = Inr rate)
         (List.product routes nts) new"
proof (induction routes arbitrary: rates w)
  case Nil
  show ?case by simp
next
  case (Cons route routes)
  from ratesOfRoute_ok [OF assms, of cfg baseUrl net route rates w] obtain new1 w1 where
    one: "ratesOfRoute cfg baseUrl net route nts rates w = (Inr (rates @ new1), w1)"
    and all1: "list_all2 (\<lambda>nt rate. \<exists>v. fst (rateOrFallback cfg baseUrl net route nt v) = Inr rate) nts new1"
    by blast
  from Cons.IH [of "rates @ new1" w1] obtain new2 w' where
    rest: "ratesOfRoutes cfg baseUrl net routes nts (rates @ new1) w1 = (Inr ((rates @ new1) @ new2), w')"
    and all2: "list_all2 (\<lambda>item rate. \<exists>v. fst (rateOrFallback cfg baseUrl net (fst item) (snd item) v) = Inr rate)
         (List.product routes nts) new2"
    by blast
  have "ratesOfRoutes cfg baseUrl net (route # routes) nts rates w = (Inr (rates @ (new1 @ new2)), w')"
    using one rest by simp
  moreover have "list_all2 (\<lambda>item rate. \<exists>v. fst (rateOrFallback cfg baseUrl net (fst item) (snd item) v) = Inr rate)
         (List.product (route # routes) nts) (new1 @ new2)"
    using all1 all2 by (auto simp: list_all2_map1 intro!: list_all2_appendI)
  ultimately show ?case by blast
qed

text \<open>
  C7. Let every notional of the batch be a string that \<^verbatim>\<open>BigInt\<close> accepts. Then
  \<^verbatim>\<open>getRates\<close> returns normally, whatever the network does, with one entry for each
  route and notional, in order, carrying the route and the notional of its item. For
  an item none of whose quote requests succeeds (every call of \<^verbatim>\<open>fetch\<close>, at every
  endpoint, fails or gives a response that is not \<^verbatim>\<open>ok\<close>, such as a persistent 503),
  the entry is the fallback rate: its \<open>amountOut\<close> is \<open>notional * 9975 div 10000\<close> (for
  a notional that is not negative) and its \<open>totalFeesUsd\<close> is the 25 bps fee of
  \<^verbatim>\<open>calculateFeeUsd\<close>, that is \<open>notional / 10 ^ decimals * 25 / 10000\<close> with the
  decimals of the source asset. For an item whose first endpoint answers 200 with a quote
  document, the entry is the rate of that document, whatever happens to the other
  items. For the notional 1000000 of a token with 6 decimals the fallback quote is
  997500 with a fee of 0.0025 USD; for the notional 5000000 the fee is 0.0125 USD.
\<close>

theorem rates_fall_back_per_item:
  assumes "\<forall>nt \<in> set notionals. \<exists>n. nt = Amount n"
  shows "\<exists>rates w'.
      getRates cfg baseUrl net routes notionals w = (Inr rates, w')
      \<and> length rates = length routes * length notionals
      \<and> (\<forall>i < length rates. \<forall>route n.
            List.product routes notionals ! i = (route, Amount n) \<longrightarrow>
              source (rates ! i) = source route \<and> destination (rates ! i) = destination route
              \<and> amountIn (rates ! i) = Amount n
              \<and> ((\<forall>endpoint v. case fst (net endpoint route (Amount n) v) of
                                   Threw m \<Rightarrow> True | Responded resp \<Rightarrow> \<not> ok resp) \<longrightarrow>
                    Inr (rates ! i) = createFallbackRate route (Amount n)
                    \<and> totalFeesUsd (rates ! i) = calculateFeeUsd n (source route)
                    \<and> totalFeesUsd (rates ! i)
                        = real_of_int n / 10 ^ decimals (source route) * 25 / 10000
                    \<and> (0 \<le> n \<longrightarrow> amountOut (rates ! i) = n * 9975 div 10000))
              \<and> (\<forall>d. (\<forall>v. \<exists>resp. fst (net (baseUrl @ ''/v1/quote'') route (Amount n) v)
                                      = Responded resp
                                    \<and> status resp = 200 \<and> body resp = Doc d) \<longrightarrow>
                    (case rateFromQuote route (Amount n) d of
                       Inr rate \<Rightarrow> rates ! i = rate
                     | Inl error \<Rightarrow> Inr (rates ! i) = createFallbackRate route (Amount n))))
      \<and> calculateWormholeQuote ethToPolygon (Amount 1000000)
          = Inr \<lparr>fq_amountOut = 997500, fq_feeUsd = 25 / 10000\<rparr>"
proof -
  let ?entry = "\<lambda>item rate. \<exists>v. fst (rateOrFallback cfg baseUrl net (fst item) (snd item) v) = Inr rate"
  from ratesOfRoutes_ok [OF assms, of cfg baseUrl net routes "[]" w] obtain rates w' where
    run: "getRates cfg baseUrl net routes notionals w = (Inr rates, w')"
    and all: "list_all2 ?entry (List.product routes notionals) rates"
    by (auto simp: getRates_def)
  from all have len: "length rates = length routes * length notionals"
    by (simp add: list_all2_lengthD [symmetric])
  have item: "source (rates ! i) = source route \<and> destination (rates ! i) = destination route
      \<and> amountIn (rates ! i) = Amount n
      \<and> ((\<forall>endpoint v. case fst (net endpoint route (Amount n) v) of
                           Threw m \<Rightarrow> True | Responded resp \<Rightarrow> \<not> ok resp) \<longrightarrow>
            Inr (rates ! i) = createFallbackRate route (Amount n)
            \<and> totalFeesUsd (rates ! i) = calculateFeeUsd n (source route)
            \<and> totalFeesUsd (rates ! i)
                = real_of_int n / 10 ^ decimals (source route) * 25 / 10000
            \<and> (0 \<le> n \<longrightarrow> amountOut (rates ! i) = n * 9975 div 10000))
      \<and> (\<forall>d. (\<forall>v. \<exists>resp. fst (net (baseUrl @ ''/v1/quote'') route (Amount n) v) = Responded resp
                            \<and> status resp = 200 \<and> body resp = Doc d) \<longrightarrow>
            (case rateFromQuote route (Amount n) d of
               Inr rate \<Rightarrow> rates ! i = rate
             | Inl error \<Rightarrow> Inr (rates ! i) = createFallbackRate route (Amount n)))"
    if i: "i < length rates" and at: "List.product routes notionals ! i = (route, Amount n)"
    for i route n
  proof -
    from all i at obtain v where
      v: "fst (rateOrFallback cfg baseUrl net route (Amount n) v) = Inr (rates ! i)"
      by (auto simp: list_all2_conv_all_nth)
    from rateOrFallback_amount [of cfg baseUrl net route n v] v
    have fields: "source (rates ! i) = source route \<and> destination (rates ! i) = destination route
        \<and> amountIn (rates ! i) = Amount n" by simp
    have down: "Inr (rates ! i) = createFallbackRate route (Amount n)
        \<and> totalFeesUsd (rates ! i) = calculateFeeUsd n (source route)
        \<and> totalFeesUsd (rates ! i)
            = real_of_int n / 10 ^ decimals (source route) * 25 / 10000
        \<and> (0 \<le> n \<longrightarrow> amountOut (rates ! i) = n * 9975 div 10000)"
      if un: "\<forall>endpoint v. case fst (net endpoint route (Amount n) v) of
                          Threw m \<Rightarrow> True | Responded resp \<Rightarrow> \<not> ok resp"
    proof -
      from rateOrFallback_unavailable [where net = net and route = route and n = n
          and cfg = cfg and baseUrl = baseUrl and w = v, OF un] v
      have eq: "Inr (rates ! i) = createFallbackRate route (Amount n)" by simp
      then have "rates ! i = \<lparr>source = source route, destination = destination route,
          amountIn = Amount n, amountOut = bigint_div (n * 9975) 10000,
          effectiveRate = calculateEffectiveRate n (bigint_div (n * 9975) 10000)
                            (decimals (source route)) (decimals (destination route)),
          totalFeesUsd = calculateFeeUsd n (source route)\<rparr>"
        by (simp add: createFallbackRate_amount)
      then have "totalFeesUsd (rates ! i) = calculateFeeUsd n (source route)"
        and "amountOut (rates ! i) = bigint_div (n * 9975) 10000" by simp_all
      moreover have "calculateFeeUsd n (source route)
          = real_of_int n / 10 ^ decimals (source route) * 25 / 10000"
        by (simp add: calculateFeeUsd_def Let_def)
      ultimately show ?thesis using eq fallback_amount [of n] by simp
    qed
    have live: "case rateFromQuote route (Amount n) d of
               Inr rate \<Rightarrow> rates ! i = rate
             | Inl error \<Rightarrow> Inr (rates ! i) = createFallbackRate route (Amount n)"
      if up: "\<forall>v. \<exists>resp. fst (net (baseUrl @ ''/v1/quote'') route (Amount n) v) = Responded resp
                            \<and> status resp = 200 \<and> body resp = Doc d" for d
      using rateOrFallback_live [where net = net and baseUrl = baseUrl and route = route
          and nt = "Amount n" and d = d and cfg = cfg and w = v, OF up] v
      by (auto split: sum.splits)
    from fields down live show ?thesis by blast
  qed
  have example: "calculateWormholeQuote ethToPolygon (Amount 1000000)
      = Inr \<lparr>fq_amountOut = 997500, fq_feeUsd = 25 / 10000\<rparr>"
    by (simp add: calculateWormholeQuote_def calculateFeeUsd_def bigint_div_def ethToPolygon_def
        usdcEthereum_def Let_def)
  from run len item example show ?thesis by blast
qed

theorem rates_fall_back_per_item_witness:
  "\<exists>rates w'.
     getRates defaultRetryConfig ''https://api.wormhole.com'' partlyDown
       [ethToPolygon, ethToArbitrum] [Amount 1000000, Amount 5000000] 0 = (Inr rates, w')
     \<and> length rates = 4
     \<and> amountOut (rates ! 0) = 997500 \<and> totalFeesUsd (rates ! 0) = 25 / 10000
     \<and> amountOut (rates ! 1) = 4987500 \<and> totalFeesUsd (rates ! 1) = 125 / 10000
     \<and> amountOut (rates ! 2) = 999990 \<and> totalFeesUsd (rates ! 2) = 1 / 2"
proof -
  let ?base = "''https://api.wormhole.com''"
  let ?routes = "[ethToPolygon, ethToArbitrum]"
  let ?notionals = "[Amount 1000000, Amount 5000000]"
  have wf: "\<forall>nt \<in> set ?notionals. \<exists>n. nt = Amount n" by simp
  from rates_fall_back_per_item [OF wf, of defaultRetryConfig ?base partlyDown ?routes 0]
  obtain rates w' where
    run: "getRates defaultRetryConfig ?base partlyDown ?routes ?notionals 0 = (Inr rates, w')"
    and len: "length rates = length ?routes * length ?notionals"
    and items: "\<forall>i < length rates. \<forall>route n.
            List.product ?routes ?notionals ! i = (route, Amount n) \<longrightarrow>
              source (rates ! i) = source route \<and> destination (rates ! i) = destination route
              \<and> amountIn (rates ! i) = Amount n
              \<and> ((\<forall>endpoint v. case fst (partlyDown endpoint route (Amount n) v) of
                                   Threw m \<Rightarrow> True | Responded resp \<Rightarrow> \<not> ok resp) \<longrightarrow>
                    Inr (rates ! i) = createFallbackRate route (Amount n)
                    \<and> totalFeesUsd (rates ! i) = calculateFeeUsd n (source route)
                    \<and> totalFeesUsd (rates ! i)
                        = real_of_int n / 10 ^ decimals (source route) * 25 / 10000
                    \<and> (0 \<le> n \<longrightarrow> amountOut (rates ! i) = n * 9975 div 10000))
              \<and> (\<forall>d. (\<forall>v. \<exists>resp. fst (partlyDown (?base @ ''/v1/quote'') route (Amount n) v)
                                      = Responded resp
                                    \<and> status resp = 200 \<and> body resp = Doc d) \<longrightarrow>
                    (case rateFromQuote route (Amount n) d of
                       Inr rate \<Rightarrow> rates ! i = rate
                     | Inl error \<Rightarrow> Inr (rates ! i) = createFallbackRate route (Amount n)))"
    by blast
  from len have four: "length rates = 4" by simp
  have p0: "List.product ?routes ?notionals ! 0 = (ethToPolygon, Amount 1000000)"
    and p1: "List.product ?routes ?notionals ! 1 = (ethToPolygon, Amount 5000000)"
    and p2: "List.product ?routes ?notionals ! 2 = (ethToArbitrum, Amount 1000000)"
    by (simp_all add: numeral_2_eq_2)
  have down: "\<forall>endpoint v. case fst (partlyDown endpoint ethToPolygon (Amount 1000000) v) of
      Threw m \<Rightarrow> True | Responded resp \<Rightarrow> \<not> ok resp"
    and down': "\<forall>endpoint v. case fst (partlyDown endpoint ethToPolygon (Amount 5000000) v) of
      Threw m \<Rightarrow> True | Responded resp \<Rightarrow> \<not> ok resp"
    by (simp_all add: partlyDown_def ok_def)
  have other: "ethToArbitrum \<noteq> ethToPolygon"
    by (simp add: ethToArbitrum_def ethToPolygon_def usdcArbitrum_def usdcPolygon_def)
  have up: "\<forall>v. \<exists>resp. fst (partlyDown (?base @ ''/v1/quote'') ethToArbitrum (Amount 1000000) v)
        = Responded resp \<and> status resp = 200 \<and> body resp = Doc (liveDoc (Amount 1000000))"
    using other by (simp add: partlyDown_def)
  from items four p0 down have
    "totalFeesUsd (rates ! 0) = calculateFeeUsd 1000000 (source ethToPolygon)
     \<and> ((0::int) \<le> 1000000 \<longrightarrow> amountOut (rates ! 0) = 1000000 * 9975 div 10000)"
    by (metis zero_less_numeral)
  then have first: "amountOut (rates ! 0) = 997500 \<and> totalFeesUsd (rates ! 0) = 25 / 10000"
    by (simp add: calculateFeeUsd_def ethToPolygon_def usdcEthereum_def Let_def)
  have one: "(1::nat) < 4" by simp
  from items four p1 down' one have
    "totalFeesUsd (rates ! 1)
       = real_of_int 5000000 / 10 ^ decimals (source ethToPolygon) * 25 / 10000
     \<and> ((0::int) \<le> 5000000 \<longrightarrow> amountOut (rates ! 1) = 5000000 * 9975 div 10000)"
    by metis
  then have second: "amountOut (rates ! 1) = 4987500 \<and> totalFeesUsd (rates ! 1) = 125 / 10000"
    by (simp add: ethToPolygon_def usdcEthereum_def)
  have two: "(2::nat) < 4" by simp
  from items four p2 up two have
    "case rateFromQuote ethToArbitrum (Amount 1000000) (liveDoc (Amount 1000000)) of
       Inr rate \<Rightarrow> rates ! 2 = rate
     | Inl error \<Rightarrow> Inr (rates ! 2) = createFallbackRate ethToArbitrum (Amount 1000000)"
    by metis
  then have third: "amountOut (rates ! 2) = 999990 \<and> totalFeesUsd (rates ! 2) = 1 / 2"
    by (simp add: rateFromQuote_def liveDoc_def truthyNumber_def Let_def)
  from run four first second third show ?thesis by blast
qed


section \<open>Properties of the effective rate\<close>




section \<open>Properties of the TTL cache\<close>

text \<open>
  C9. Storing with \<open>setCache\<close> at time \<open>now\<close> records \<open>expires = now + CACHE_TTL\<close> with
  \<open>CACHE_TTL\<close> one minute (60000 ms); a \<open>getFromCache\<close> at any time before that
  expiry returns the stored value and keeps the entry; a \<open>getFromCache\<close> of an entry
  whose expiry is at or before the current time reports a miss and removes the entry.
\<close>

theorem cache_set_get:
  "CACHE_TTL = 60000
   \<and> setCache now k v c k = Some \<lparr>data = v, expires = now + 60000\<rparr>
   \<and> (now' < now + 60000 \<longrightarrow>
        getFromCache now' k (setCache now k v c) = (Some v, setCache now k v c))
   \<and> (c k = Some e \<and> expires e \<le> now' \<longrightarrow>
        fst (getFromCache now' k c) = None \<and> snd (getFromCache now' k c) k = None
        \<and> (\<forall>k'. k' \<noteq> k \<longrightarrow> snd (getFromCache now' k c) k' = c k'))"
  by (auto simp: CACHE_TTL_def setCache_def getFromCache_def)

theorem cache_set_get_witness:
  "getFromCache 59999 ''volumes:24h'' (setCache 0 ''volumes:24h'' (7::nat) Map.empty)
     = (Some 7, setCache 0 ''volumes:24h'' 7 Map.empty)
   \<and> fst (getFromCache 60000 ''volumes:24h'' (setCache 0 ''volumes:24h'' (7::nat) Map.empty)) = None
   \<and> snd (getFromCache 60000 ''volumes:24h'' (setCache 0 ''volumes:24h'' (7::nat) Map.empty))
        ''volumes:24h'' = None"
proof -
  let ?k = "''volumes:24h''"
  let ?c = "setCache 0 ?k (7::nat) Map.empty"
  have e: "?c ?k = Some \<lparr>data = 7, expires = 60000\<rparr> \<and> expires \<lparr>data = 7::nat, expires = 60000\<rparr> \<le> 60000"
    by (simp add: setCache_def CACHE_TTL_def)
  have a: "getFromCache 59999 ?k ?c = (Some 7, ?c)"
    by (rule cache_set_get [THEN conjunct2, THEN conjunct2, THEN conjunct1, THEN mp]) simp
  have b: "fst (getFromCache 60000 ?k ?c) = None \<and> snd (getFromCache 60000 ?k ?c) ?k = None
    \<and> (\<forall>k'. k' \<noteq> ?k \<longrightarrow> snd (getFromCache 60000 ?k ?c) k' = ?c k')"
    by (rule cache_set_get [THEN conjunct2, THEN conjunct2, THEN conjunct2, THEN mp]) (rule e)
  from a b show ?thesis by blast
qed

end
